theory Spec2Isabelle
  imports Complex_Main
begin

section \<open>JavaScript numbers\<close>

text \<open>
  Every number of the program is an IEEE-754 binary64 value.  A finite double is a
  rational, so the finite doubles are modelled inside \<^typ>\<open>rat\<close> and the result of each
  arithmetic operation is rounded to the nearest double, ties to even, by \<open>fl\<close>:
  the 53-bit significand is written out.  The exponent range is not bounded: overflow
  to an infinity and gradual underflow are outside the model, which therefore speaks
  about executions whose values stay in the normal range of binary64 (temperatures,
  colour channels, pixel coordinates and their products do).  The two signed zeros are
  identified; no operation of the program tells them apart.
\<close>

function bitLength :: "int \<Rightarrow> int" where
  "bitLength a = (if a \<le> 0 then 0 else 1 + bitLength (a div 2))"
  by pat_completeness auto
termination
  by (relation "measure nat") auto

declare bitLength.simps [simp del]

text \<open>\<open>ilog2 x\<close> is \<open>\<lfloor>log\<^sub>2 x\<rfloor>\<close> for a positive rational \<open>x\<close>.\<close>

definition ilog2 :: "rat \<Rightarrow> int" where
  "ilog2 x = (let (a, b) = quotient_of x;
                  k = bitLength a - bitLength b
              in if 2 powi k \<le> x then k else k - 1)"

definition roundHalfEven :: "rat \<Rightarrow> int" where
  "roundHalfEven m = (let f = \<lfloor>m\<rfloor>; d = m - of_int f
     in if d < 1 / 2 then f else if 1 / 2 < d then f + 1 else if even f then f else f + 1)"

text \<open>Round to 53 significant bits: the significand \<open>\<bar>x\<bar> / 2\<^sup>e\<close> lies in \<open>[2\<^sup>5\<^sup>2, 2\<^sup>5\<^sup>3)\<close>.\<close>

definition fl :: "rat \<Rightarrow> rat" where
  "fl x = (if x = 0 then 0
           else let e = ilog2 \<bar>x\<bar> - 52;
                    n = roundHalfEven (\<bar>x\<bar> / 2 powi e)
                in sgn x * of_int n * 2 powi e)"

text \<open>
  A JavaScript number is \<open>NaN\<close> or a finite double.  \<open>x / 0\<close> with \<open>x \<noteq> 0\<close> is an
  infinity in JavaScript; the program divides by zero only as \<open>0 / 0\<close> (a stop table
  with a repeated threshold), so \<open>jdiv\<close> answers \<open>NaN\<close> for every zero divisor.
\<close>

datatype jsnum = NaN | Num rat

fun jadd :: "jsnum \<Rightarrow> jsnum \<Rightarrow> jsnum" where
  "jadd (Num x) (Num y) = Num (fl (x + y))"
| "jadd _ _ = NaN"

fun jsub :: "jsnum \<Rightarrow> jsnum \<Rightarrow> jsnum" where
  "jsub (Num x) (Num y) = Num (fl (x - y))"
| "jsub _ _ = NaN"

fun jmul :: "jsnum \<Rightarrow> jsnum \<Rightarrow> jsnum" where
  "jmul (Num x) (Num y) = Num (fl (x * y))"
| "jmul _ _ = NaN"

fun jdiv :: "jsnum \<Rightarrow> jsnum \<Rightarrow> jsnum" where
  "jdiv (Num x) (Num y) = (if y = 0 then NaN else Num (fl (x / y)))"
| "jdiv _ _ = NaN"

fun jneg :: "jsnum \<Rightarrow> jsnum" where
  "jneg (Num x) = Num (- x)"
| "jneg NaN = NaN"

text \<open>Comparisons with \<open>NaN\<close> are false.\<close>

fun jlt :: "jsnum \<Rightarrow> jsnum \<Rightarrow> bool" where
  "jlt (Num x) (Num y) = (x < y)"
| "jlt _ _ = False"

text \<open>\<open>Math.round\<close> rounds half up (towards \<open>+\<infinity>\<close>); \<open>Math.floor\<close> is the floor.\<close>

definition Math_round :: "rat \<Rightarrow> int" where
  "Math_round x = \<lfloor>x + 1 / 2\<rfloor>"

definition Math_floor :: "rat \<Rightarrow> int" where
  "Math_floor x = \<lfloor>x\<rfloor>"

fun jround :: "jsnum \<Rightarrow> jsnum" where
  "jround (Num x) = Num (of_int (Math_round x))"
| "jround NaN = NaN"


section \<open>Typed arrays and thrown errors\<close>

text \<open>
  A \<open>Float64Array\<close> is a list of numbers.  Reading outside the array yields
  \<open>undefined\<close>, which is \<open>None\<close> here; \<open>undefined\<close> becomes \<open>NaN\<close> when it is used as a
  number.  Array indices and loop counters are integer-valued doubles far below
  \<open>2\<^sup>5\<^sup>3\<close>, where double arithmetic is exact; they are integers here.
\<close>

definition rdGrid :: "jsnum list \<Rightarrow> int \<Rightarrow> jsnum option" where
  "rdGrid temps i = (if 0 \<le> i \<and> i < int (length temps) then Some (temps ! nat i) else None)"

fun toNumber :: "jsnum option \<Rightarrow> jsnum" where
  "toNumber None = NaN"
| "toNumber (Some v) = v"

text \<open>
  A \<open>Uint8ClampedArray\<close> is a list of bytes.  A store converts the number: \<open>NaN\<close> to 0,
  anything else rounded half to even and clamped to \<open>[0, 255]\<close>; a store outside the
  array is ignored, as \<open>list_update\<close> does.  A read outside the array is \<open>undefined\<close>,
  hence \<open>NaN\<close> in arithmetic.
\<close>

definition toUint8Clamp :: "jsnum \<Rightarrow> nat" where
  "toUint8Clamp v = (case v of NaN \<Rightarrow> 0 | Num x \<Rightarrow> nat (max 0 (min 255 (roundHalfEven x))))"

definition rdByte :: "nat list \<Rightarrow> nat \<Rightarrow> jsnum" where
  "rdByte xs i = (if i < length xs then Num (of_nat (xs ! i)) else NaN)"

definition wrByte :: "nat list \<Rightarrow> nat \<Rightarrow> jsnum \<Rightarrow> nat list" where
  "wrByte xs i v = xs[i := toUint8Clamp v]"

text \<open>\<open>v | 0\<close>: truncate towards zero and wrap into the signed 32-bit range; \<open>NaN\<close> gives 0.\<close>

definition toInt32 :: "jsnum \<Rightarrow> int" where
  "toInt32 v = (case v of NaN \<Rightarrow> 0
     | Num x \<Rightarrow> (let k = (if 0 \<le> x then \<lfloor>x\<rfloor> else \<lceil>x\<rceil>) mod 2 ^ 32
                in if 2 ^ 31 \<le> k then k - 2 ^ 32 else k))"

text \<open>The only exception the pipeline can raise: a property read on \<open>undefined\<close>.\<close>

datatype error = TypeError

text \<open>A counted \<open>for\<close> loop whose body may throw: the first exception leaves the loop.\<close>

fun forM :: "nat list \<Rightarrow> (nat \<Rightarrow> 's \<Rightarrow> error + 's) \<Rightarrow> 's \<Rightarrow> error + 's" where
  "forM [] body s = Inr s"
| "forM (i # is) body s = (case body i s of Inl e \<Rightarrow> Inl e | Inr s' \<Rightarrow> forM is body s')"

section \<open>Pure temperature rendering (the module exporting \<open>renderPixelData\<close>)\<close>

subsection \<open>Grid config\<close>

definition GRID_STEP :: int where "GRID_STEP = 2"
definition LAT_MIN :: int where "LAT_MIN = - 90"
definition LAT_MAX :: int where "LAT_MAX = 90"
definition LNG_MIN :: int where "LNG_MIN = - 180"
definition LNG_MAX :: int where "LNG_MAX = 180"
definition NUM_LAT :: int where "NUM_LAT = (LAT_MAX - LAT_MIN) div GRID_STEP + 1"
definition NUM_LNG :: int where "NUM_LNG = (LNG_MAX - LNG_MIN) div GRID_STEP + 1"
definition NUM_POINTS :: int where "NUM_POINTS = NUM_LAT * NUM_LNG"

definition RENDER_WIDTH :: nat where "RENDER_WIDTH = 1024"
definition RENDER_HEIGHT :: nat where "RENDER_HEIGHT = 512"

subsection \<open>Color ramps\<close>

text \<open>
  A stop \<open>{ t, c }\<close>: a finite threshold and three integer colour channels.  A decimal
  literal denotes the nearest double, so \<open>26.7\<close> is \<open>fl (267 / 10)\<close>.
\<close>

record stop =
  stop_t :: rat
  stop_c :: "int \<times> int \<times> int"

definition THERMAL_STOPS :: "stop list" where
  "THERMAL_STOPS =
    [\<lparr>stop_t = - 30, stop_c = (20, 40, 150)\<rparr>,
     \<lparr>stop_t = 5, stop_c = (60, 130, 255)\<rparr>,
     \<lparr>stop_t = 10, stop_c = (255, 255, 255)\<rparr>,
     \<lparr>stop_t = fl (155 / 10), stop_c = (255, 255, 255)\<rparr>,
     \<lparr>stop_t = 18, stop_c = (255, 235, 50)\<rparr>,
     \<lparr>stop_t = 25, stop_c = (255, 220, 40)\<rparr>,
     \<lparr>stop_t = fl (267 / 10), stop_c = (255, 160, 20)\<rparr>,
     \<lparr>stop_t = 32, stop_c = (255, 40, 20)\<rparr>,
     \<lparr>stop_t = 50, stop_c = (150, 0, 0)\<rparr>]"

definition CLASSIC_STOPS :: "stop list" where
  "CLASSIC_STOPS =
    [\<lparr>stop_t = - 20, stop_c = (30, 100, 240)\<rparr>,
     \<lparr>stop_t = - 5, stop_c = (50, 160, 200)\<rparr>,
     \<lparr>stop_t = 10, stop_c = (60, 200, 90)\<rparr>,
     \<lparr>stop_t = 25, stop_c = (235, 220, 55)\<rparr>,
     \<lparr>stop_t = 40, stop_c = (210, 50, 30)\<rparr>]"

definition EARTH_STOPS :: "stop list" where
  "EARTH_STOPS =
    [\<lparr>stop_t = - 30, stop_c = (15, 25, 110)\<rparr>,
     \<lparr>stop_t = 5, stop_c = (55, 110, 225)\<rparr>,
     \<lparr>stop_t = 10, stop_c = (200, 190, 85)\<rparr>,
     \<lparr>stop_t = 16, stop_c = (220, 190, 55)\<rparr>,
     \<lparr>stop_t = 18, stop_c = (225, 175, 40)\<rparr>,
     \<lparr>stop_t = 25, stop_c = (220, 145, 30)\<rparr>,
     \<lparr>stop_t = 27, stop_c = (215, 110, 20)\<rparr>,
     \<lparr>stop_t = 32, stop_c = (200, 40, 15)\<rparr>,
     \<lparr>stop_t = 50, stop_c = (120, 0, 0)\<rparr>]"

definition VIVID_STOPS :: "stop list" where
  "VIVID_STOPS =
    [\<lparr>stop_t = 4, stop_c = (30, 100, 240)\<rparr>,
     \<lparr>stop_t = 10, stop_c = (80, 180, 255)\<rparr>,
     \<lparr>stop_t = 18, stop_c = (255, 235, 0)\<rparr>,
     \<lparr>stop_t = 24, stop_c = (255, 130, 0)\<rparr>,
     \<lparr>stop_t = 32, stop_c = (240, 10, 0)\<rparr>]"

text \<open>A name that is not a key of the object looks up \<open>undefined\<close>.\<close>

definition COLORWAY_MAP :: "string \<Rightarrow> stop list option" where
  "COLORWAY_MAP name =
     (if name = ''thermal'' then Some THERMAL_STOPS
      else if name = ''classic'' then Some CLASSIC_STOPS
      else if name = ''earth'' then Some EARTH_STOPS
      else if name = ''vivid'' then Some VIVID_STOPS
      else None)"

subsection \<open>Color mapping\<close>

type_synonym rgb = "jsnum \<times> jsnum \<times> jsnum"

definition rgbOf :: "int \<times> int \<times> int \<Rightarrow> rgb" where
  "rgbOf c = (case c of (r, g, b) \<Rightarrow> (Num (of_int r), Num (of_int g), Num (of_int b)))"

text \<open>One channel of the interpolated colour: \<open>Math.round(a + (b - a) * p)\<close>.\<close>

definition mixChannel :: "int \<Rightarrow> int \<Rightarrow> jsnum \<Rightarrow> jsnum" where
  "mixChannel a b p = jround (jadd (Num (of_int a)) (jmul (jsub (Num (of_int b)) (Num (of_int a))) p))"

text \<open>The colour between two adjacent stops: the fraction \<open>p\<close> and the three channels.\<close>

definition mixStops :: "stop \<Rightarrow> stop \<Rightarrow> rat \<Rightarrow> rgb" where
  "mixStops a b t =
     (let p = jdiv (jsub (Num t) (Num (stop_t a))) (jsub (Num (stop_t b)) (Num (stop_t a)))
      in (case (stop_c a, stop_c b) of
            ((a0, a1, a2), (b0, b1, b2)) \<Rightarrow>
              (mixChannel a0 b0 p, mixChannel a1 b1 p, mixChannel a2 b2 p)))"

text \<open>The \<open>for\<close> loop over adjacent stops; it falls through to white.\<close>

fun tempToRGB_loop :: "rat \<Rightarrow> stop list \<Rightarrow> rgb" where
  "tempToRGB_loop t (a # b # rest) =
     (if stop_t a \<le> t \<and> t \<le> stop_t b then mixStops a b t
      else tempToRGB_loop t (b # rest))"
| "tempToRGB_loop t [a] = (Num 255, Num 255, Num 255)"
| "tempToRGB_loop t [] = (Num 255, Num 255, Num 255)"

text \<open>
  The temperature is \<open>null\<close> (\<open>None\<close>), \<open>NaN\<close> or a number; the stop table may be
  \<open>undefined\<close> (\<open>None\<close>).  Reading \<open>stops[0].t\<close> throws when the table is \<open>undefined\<close>
  or empty.
\<close>

definition tempToRGB :: "jsnum option \<Rightarrow> stop list option \<Rightarrow> error + rgb" where
  "tempToRGB t stops =
     (case t of
        None \<Rightarrow> Inr (Num 255, Num 255, Num 255)
      | Some NaN \<Rightarrow> Inr (Num 255, Num 255, Num 255)
      | Some (Num x) \<Rightarrow>
          (case stops of
             None \<Rightarrow> Inl TypeError
           | Some [] \<Rightarrow> Inl TypeError
           | Some (s # ss) \<Rightarrow>
               if x \<le> stop_t s then Inr (rgbOf (stop_c s))
               else if stop_t (last (s # ss)) \<le> x then Inr (rgbOf (stop_c (last (s # ss))))
               else Inr (tempToRGB_loop x (s # ss))))"

subsection \<open>Bicubic interpolation\<close>

definition catmullRomWeights :: "jsnum \<Rightarrow> jsnum list" where
  "catmullRomWeights t =
     (let t2 = jmul t t; t3 = jmul t2 t
      in [jdiv (jsub (jadd (jneg t3) (jmul (Num 2) t2)) t) (Num 2),
          jdiv (jadd (jsub (jmul (Num 3) t3) (jmul (Num 5) t2)) (Num 2)) (Num 2),
          jdiv (jadd (jadd (jmul (Num (- 3)) t3) (jmul (Num 4) t2)) t) (Num 2),
          jdiv (jsub t3 t2) (Num 2)])"

text \<open>The index \<open>latIdx * NUM_LNG + lngIdx\<close> that \<open>getGridTemp\<close> reads, after its clamp and
  its single wrap step.\<close>

definition getGridTemp_index :: "int \<Rightarrow> int \<Rightarrow> int" where
  "getGridTemp_index latIdx lngIdx =
     (let latIdx' = max 0 (min (NUM_LAT - 1) latIdx);
          lngIdx' = (if lngIdx < 0 then lngIdx + NUM_LNG
                     else if NUM_LNG \<le> lngIdx then lngIdx - NUM_LNG else lngIdx)
      in latIdx' * NUM_LNG + lngIdx')"

definition getGridTemp :: "jsnum list \<Rightarrow> int \<Rightarrow> int \<Rightarrow> jsnum option" where
  "getGridTemp temps latIdx lngIdx = rdGrid temps (getGridTemp_index latIdx lngIdx)"

definition offsets4x4 :: "(int \<times> int) list" where
  "offsets4x4 = concat (map (\<lambda>dy. map (\<lambda>dx. (dy, dx)) [- 1, 0, 1, 2]) [- 1, 0, 1, 2])"

text \<open>
  \<open>v === v\<close> holds for every value but \<open>NaN\<close>, also for \<open>undefined\<close>; adding \<open>undefined\<close>
  gives \<open>NaN\<close>, and the \<open>Float64Array raw\<close> stores \<open>undefined\<close> as \<open>NaN\<close>.  With a \<open>NaN\<close>
  coordinate every index is \<open>NaN\<close>, all sixteen reads are \<open>undefined\<close>, and the result is
  \<open>NaN\<close>.
\<close>

definition bicubicSample :: "jsnum list \<Rightarrow> jsnum \<Rightarrow> jsnum \<Rightarrow> jsnum" where
  "bicubicSample temps lat lng =
     (case (jdiv (jsub (Num (of_int LAT_MAX)) lat) (Num (of_int GRID_STEP)),
            jdiv (jsub lng (Num (of_int LNG_MIN))) (Num (of_int GRID_STEP))) of
        (Num gLat, Num gLng) \<Rightarrow>
          (let latBase = Math_floor gLat;
               lngBase = Math_floor gLng;
               tLat = jsub (Num gLat) (Num (of_int latBase));
               tLng = jsub (Num gLng) (Num (of_int lngBase));
               cells = map (\<lambda>(dy, dx). getGridTemp temps (latBase + dy) (lngBase + dx)) offsets4x4;
               validSum = fold (\<lambda>v s. if v \<noteq> Some NaN then jadd s (toNumber v) else s) cells (Num 0);
               validCount = length (filter (\<lambda>v. v \<noteq> Some NaN) cells);
               raw = map toNumber cells
           in if validCount = 0 then NaN
              else (let fallback = jdiv validSum (Num (of_nat validCount));
                        raw' = (if validCount < 16
                                then map (\<lambda>r. if r = NaN then fallback else r) raw else raw);
                        wLat = catmullRomWeights tLat;
                        wLng = catmullRomWeights tLng
                    in fold (\<lambda>row result.
                          jadd result (jmul (wLat ! row)
                            (fold (\<lambda>col rowVal. jadd rowVal (jmul (wLng ! col) (raw' ! (row * 4 + col))))
                               [0..<4] (Num 0))))
                        [0..<4] (Num 0)))
      | _ \<Rightarrow> NaN)"


subsection \<open>Box blur\<close>

text \<open>
  The running window \<open>(sum, count)\<close> of one line.  \<open>pos\<close> maps a position on the line to its byte index.
  The first loop, \<open>for (x = 0; x <= radius && x < n; x++)\<close>, sums the initial window.
\<close>

definition blurWindow :: "nat list \<Rightarrow> (nat \<Rightarrow> nat) \<Rightarrow> nat \<Rightarrow> nat \<Rightarrow> jsnum \<times> int" where
  "blurWindow src pos radius n =
     fold (\<lambda>x (sm, cnt). (jadd sm (rdByte src (pos x)), cnt + 1))
       [0..<min (radius + 1) n] (Num 0, 0)"

text \<open>The window slides: the entering sample \<open>x + radius + 1\<close>, the leaving one \<open>x - radius\<close>.\<close>

definition blurSlide :: "nat list \<Rightarrow> (nat \<Rightarrow> nat) \<Rightarrow> nat \<Rightarrow> nat \<Rightarrow> nat \<Rightarrow> jsnum \<times> int \<Rightarrow> jsnum \<times> int" where
  "blurSlide src pos radius n x sc =
     (case sc of (sm, cnt) \<Rightarrow>
        (let nx = x + radius + 1;
             sc1 = (if nx < n then (jadd sm (rdByte src (pos nx)), cnt + 1) else (sm, cnt));
             sc2 = (if radius \<le> x
                    then (jsub (fst sc1) (rdByte src (pos (x - radius))), snd sc1 - 1) else sc1)
         in sc2))"

text \<open>\<open>(sum / count + 0.5) | 0\<close>\<close>

definition blurAverage :: "jsnum \<times> int \<Rightarrow> jsnum" where
  "blurAverage sc = Num (of_int (toInt32 (jadd (jdiv (fst sc) (Num (of_int (snd sc)))) (Num (1 / 2)))))"

text \<open>Horizontal: one channel of one row, \<open>data \<rightarrow> dst\<close>, alpha of \<open>dst\<close> set to 255.\<close>

definition blurRow :: "nat list \<Rightarrow> nat \<Rightarrow> nat \<Rightarrow> nat \<Rightarrow> nat \<Rightarrow> nat list \<Rightarrow> nat list" where
  "blurRow data w radius rowOff ch dst =
     fst (fold (\<lambda>x (dst, sc).
            (wrByte (wrByte dst (rowOff + x * 4 + ch) (blurAverage sc)) (rowOff + x * 4 + 3) (Num 255),
             blurSlide data (\<lambda>x. rowOff + x * 4 + ch) radius w x sc))
          [0..<w] (dst, blurWindow data (\<lambda>x. rowOff + x * 4 + ch) radius w))"

text \<open>Vertical: one channel of one column, \<open>dst \<rightarrow> data\<close>.\<close>

definition blurCol :: "nat list \<Rightarrow> nat \<Rightarrow> nat \<Rightarrow> nat \<Rightarrow> nat \<Rightarrow> nat \<Rightarrow> nat list \<Rightarrow> nat list" where
  "blurCol dst w h radius x ch data =
     fst (fold (\<lambda>y (data, sc).
            (wrByte data ((y * w + x) * 4 + ch) (blurAverage sc),
             blurSlide dst (\<lambda>y. (y * w + x) * 4 + ch) radius h y sc))
          [0..<h] (data, blurWindow dst (\<lambda>y. (y * w + x) * 4 + ch) radius h))"

text \<open>One pass: all rows into \<open>dst\<close>, then all columns back into \<open>data\<close>.\<close>

definition blurPass :: "nat \<Rightarrow> nat \<Rightarrow> nat \<Rightarrow> nat list \<times> nat list \<Rightarrow> nat list \<times> nat list" where
  "blurPass w h radius dd =
     (case dd of (data, dst) \<Rightarrow>
        (let dst' = fold (\<lambda>y dst. fold (\<lambda>ch dst. blurRow data w radius (y * w * 4) ch dst) [0..<3] dst)
                      [0..<h] dst;
             data' = fold (\<lambda>x data. fold (\<lambda>ch data. blurCol dst' w h radius x ch data) [0..<3] data)
                      [0..<w] data
         in (data', dst')))"

text \<open>\<open>boxBlur\<close> mutates \<open>data\<close> in place; the model returns the final \<open>data\<close>.\<close>

definition boxBlur :: "nat list \<Rightarrow> nat \<Rightarrow> nat \<Rightarrow> nat \<Rightarrow> nat \<Rightarrow> nat list" where
  "boxBlur data w h radius passes =
     fst (fold (\<lambda>pass dd. blurPass w h radius dd) [0..<passes] (data, replicate (length data) 0))"

subsection \<open>Nearest-neighbor ocean check\<close>

text \<open>The index of the cell that \<open>isOceanNearest\<close> reads, for finite coordinates.\<close>

definition isOceanNearest_index :: "rat \<Rightarrow> rat \<Rightarrow> int" where
  "isOceanNearest_index lat lng =
     (let latIdx = Math_round (fl (fl (of_int LAT_MAX - lat) / of_int GRID_STEP));
          lngIdx = Math_round (fl (fl (lng - of_int LNG_MIN) / of_int GRID_STEP));
          lngIdx' = (if lngIdx < 0 then lngIdx + NUM_LNG
                     else if NUM_LNG \<le> lngIdx then lngIdx - NUM_LNG else lngIdx);
          clampedLat = max 0 (min (NUM_LAT - 1) latIdx)
      in clampedLat * NUM_LNG + lngIdx')"

text \<open>\<open>v !== v\<close> holds for \<open>NaN\<close> only.  A \<open>NaN\<close> coordinate makes the index \<open>NaN\<close>; the read
  is \<open>undefined\<close> and the answer false.\<close>

definition isOceanNearest :: "jsnum list \<Rightarrow> jsnum \<Rightarrow> jsnum \<Rightarrow> bool" where
  "isOceanNearest temps lat lng =
     (case (lat, lng) of
        (Num a, Num b) \<Rightarrow> rdGrid temps (isOceanNearest_index a b) = Some NaN
      | _ \<Rightarrow> False)"

subsection \<open>Render full pixel data\<close>

text \<open>
  The options object: \<open>customStops\<close> is \<open>None\<close> when absent (or otherwise falsy),
  \<open>blurRadius\<close> is \<open>NaN\<close> when absent or not a number (\<open>undefined > 0\<close> is false).
\<close>

record opts =
  customStops :: "stop list option"
  colorway :: string
  blurRadius :: jsnum

text \<open>The coordinates of a pixel: \<open>90 - (y / h) * 180\<close> and \<open>(x / w) * 360 - 180\<close>.\<close>

definition pixelLat :: "nat \<Rightarrow> nat \<Rightarrow> jsnum" where
  "pixelLat y h = jsub (Num 90) (jmul (jdiv (Num (of_nat y)) (Num (of_nat h))) (Num 180))"

definition pixelLng :: "nat \<Rightarrow> nat \<Rightarrow> jsnum" where
  "pixelLng x w = jsub (jmul (jdiv (Num (of_nat x)) (Num (of_nat w))) (Num 360)) (Num 180)"

text \<open>The body of the inner loop, on the pair \<open>(data, oceanMask)\<close>.\<close>

definition renderPixel ::
  "jsnum list \<Rightarrow> stop list option \<Rightarrow> nat \<Rightarrow> nat \<Rightarrow> nat \<Rightarrow> nat \<Rightarrow> nat list \<times> nat list
     \<Rightarrow> error + nat list \<times> nat list" where
  "renderPixel temps stops w h y x dm =
     (case dm of (data, oceanMask) \<Rightarrow>
        (let lat = pixelLat y h;
             lng = pixelLng x w;
             ocean = isOceanNearest temps lat lng;
             oceanMask' = oceanMask[y * w + x := (if ocean then 1 else 0)];
             idx = (y * w + x) * 4
         in if ocean
            then Inr (wrByte (wrByte (wrByte (wrByte data idx (Num 255)) (idx + 1) (Num 255))
                        (idx + 2) (Num 255)) (idx + 3) (Num 255), oceanMask')
            else (let temp = bicubicSample temps lat lng
                  in case tempToRGB (if temp = NaN then None else Some temp) stops of
                       Inl e \<Rightarrow> Inl e
                     | Inr (r, g, b) \<Rightarrow>
                         Inr (wrByte (wrByte (wrByte (wrByte data idx r) (idx + 1) g)
                                (idx + 2) b) (idx + 3) (Num 255), oceanMask'))))"

text \<open>Re-stamp ocean pixels white after the blur.\<close>

definition restamp :: "nat list \<Rightarrow> nat list \<Rightarrow> nat list" where
  "restamp data oceanMask =
     fold (\<lambda>i data. if oceanMask ! i \<noteq> 0
                     then wrByte (wrByte (wrByte data (i * 4) (Num 255)) (i * 4 + 1) (Num 255))
                            (i * 4 + 2) (Num 255)
                     else data)
       [0..<length oceanMask] data"

text \<open>\<open>Math.max(1, Math.round(opts.blurRadius * w / refSize))\<close>, for a positive radius.\<close>

definition scaledRadius :: "rat \<Rightarrow> nat \<Rightarrow> nat" where
  "scaledRadius b w = nat (max 1 (Math_round (fl (fl (b * of_nat w) / 2048))))"

text \<open>\<open>w\<close> and \<open>h\<close> are \<open>None\<close> when the caller leaves them \<open>undefined\<close>.\<close>

definition renderPixelData :: "jsnum list \<Rightarrow> opts \<Rightarrow> nat option \<Rightarrow> nat option \<Rightarrow> error + nat list" where
  "renderPixelData temps opts wo ho =
     (let w = (case wo of None \<Rightarrow> RENDER_WIDTH | Some w \<Rightarrow> w);
          h = (case ho of None \<Rightarrow> RENDER_HEIGHT | Some h \<Rightarrow> h);
          stops = (case customStops opts of Some cs \<Rightarrow> Some cs | None \<Rightarrow> COLORWAY_MAP (colorway opts))
      in case forM [0..<h] (\<lambda>y. forM [0..<w] (renderPixel temps stops w h y))
                (replicate (w * h * 4) 0, replicate (w * h) 0) of
           Inl e \<Rightarrow> Inl e
         | Inr (data, oceanMask) \<Rightarrow>
             Inr (case blurRadius opts of
                    Num b \<Rightarrow> if 0 < b then restamp (boxBlur data w h (scaledRadius b w) 3) oceanMask
                              else data
                  | NaN \<Rightarrow> data))"

section \<open>The texture atlas worker (\<open>thermal-worker.js\<close>)\<close>

text \<open>
  The worker inlines its own copy of the rendering functions.  The copy is embedded
  from the worker file, each constant under its name there prefixed by \<open>worker_\<close>
  (stops and options are the same objects in both files and keep their record types); it
  writes \<open>90\<close> and \<open>180\<close> where the module writes \<open>LAT_MAX\<close> and \<open>LNG_MAX\<close>, and its
  \<open>renderPixelData\<close> has no default size.
\<close>

subsection \<open>Grid config\<close>

definition worker_GRID_STEP :: int where "worker_GRID_STEP = 2"
definition worker_LAT_MIN :: int where "worker_LAT_MIN = - 90"
definition worker_LAT_MAX :: int where "worker_LAT_MAX = 90"
definition worker_LNG_MIN :: int where "worker_LNG_MIN = - 180"
definition worker_NUM_LAT :: int where "worker_NUM_LAT = (90 - worker_LAT_MIN) div worker_GRID_STEP + 1"
definition worker_NUM_LNG :: int where "worker_NUM_LNG = (180 - worker_LNG_MIN) div worker_GRID_STEP + 1"
definition worker_NUM_POINTS :: int where "worker_NUM_POINTS = worker_NUM_LAT * worker_NUM_LNG"

subsection \<open>Color ramps\<close>

definition worker_THERMAL_STOPS :: "stop list" where
  "worker_THERMAL_STOPS =
    [\<lparr>stop_t = - 30, stop_c = (20, 40, 150)\<rparr>,
     \<lparr>stop_t = 5, stop_c = (60, 130, 255)\<rparr>,
     \<lparr>stop_t = 10, stop_c = (255, 255, 255)\<rparr>,
     \<lparr>stop_t = fl (155 / 10), stop_c = (255, 255, 255)\<rparr>,
     \<lparr>stop_t = 18, stop_c = (255, 235, 50)\<rparr>,
     \<lparr>stop_t = 25, stop_c = (255, 220, 40)\<rparr>,
     \<lparr>stop_t = fl (267 / 10), stop_c = (255, 160, 20)\<rparr>,
     \<lparr>stop_t = 32, stop_c = (255, 40, 20)\<rparr>,
     \<lparr>stop_t = 50, stop_c = (150, 0, 0)\<rparr>]"

definition worker_CLASSIC_STOPS :: "stop list" where
  "worker_CLASSIC_STOPS =
    [\<lparr>stop_t = - 20, stop_c = (30, 100, 240)\<rparr>,
     \<lparr>stop_t = - 5, stop_c = (50, 160, 200)\<rparr>,
     \<lparr>stop_t = 10, stop_c = (60, 200, 90)\<rparr>,
     \<lparr>stop_t = 25, stop_c = (235, 220, 55)\<rparr>,
     \<lparr>stop_t = 40, stop_c = (210, 50, 30)\<rparr>]"

definition worker_EARTH_STOPS :: "stop list" where
  "worker_EARTH_STOPS =
    [\<lparr>stop_t = - 30, stop_c = (15, 25, 110)\<rparr>,
     \<lparr>stop_t = 5, stop_c = (55, 110, 225)\<rparr>,
     \<lparr>stop_t = 10, stop_c = (200, 190, 85)\<rparr>,
     \<lparr>stop_t = 16, stop_c = (220, 190, 55)\<rparr>,
     \<lparr>stop_t = 18, stop_c = (225, 175, 40)\<rparr>,
     \<lparr>stop_t = 25, stop_c = (220, 145, 30)\<rparr>,
     \<lparr>stop_t = 27, stop_c = (215, 110, 20)\<rparr>,
     \<lparr>stop_t = 32, stop_c = (200, 40, 15)\<rparr>,
     \<lparr>stop_t = 50, stop_c = (120, 0, 0)\<rparr>]"

definition worker_VIVID_STOPS :: "stop list" where
  "worker_VIVID_STOPS =
    [\<lparr>stop_t = 4, stop_c = (30, 100, 240)\<rparr>,
     \<lparr>stop_t = 10, stop_c = (80, 180, 255)\<rparr>,
     \<lparr>stop_t = 18, stop_c = (255, 235, 0)\<rparr>,
     \<lparr>stop_t = 24, stop_c = (255, 130, 0)\<rparr>,
     \<lparr>stop_t = 32, stop_c = (240, 10, 0)\<rparr>]"

definition worker_COLORWAY_MAP :: "string \<Rightarrow> stop list option" where
  "worker_COLORWAY_MAP name =
     (if name = ''thermal'' then Some worker_THERMAL_STOPS
      else if name = ''classic'' then Some worker_CLASSIC_STOPS
      else if name = ''earth'' then Some worker_EARTH_STOPS
      else if name = ''vivid'' then Some worker_VIVID_STOPS
      else None)"

subsection \<open>Color mapping\<close>

definition worker_rgbOf :: "int \<times> int \<times> int \<Rightarrow> rgb" where
  "worker_rgbOf c = (case c of (r, g, b) \<Rightarrow> (Num (of_int r), Num (of_int g), Num (of_int b)))"

definition worker_mixChannel :: "int \<Rightarrow> int \<Rightarrow> jsnum \<Rightarrow> jsnum" where
  "worker_mixChannel a b p = jround (jadd (Num (of_int a)) (jmul (jsub (Num (of_int b)) (Num (of_int a))) p))"

definition worker_mixStops :: "stop \<Rightarrow> stop \<Rightarrow> rat \<Rightarrow> rgb" where
  "worker_mixStops a b t =
     (let p = jdiv (jsub (Num t) (Num (stop_t a))) (jsub (Num (stop_t b)) (Num (stop_t a)))
      in (case (stop_c a, stop_c b) of
            ((a0, a1, a2), (b0, b1, b2)) \<Rightarrow>
              (worker_mixChannel a0 b0 p, worker_mixChannel a1 b1 p, worker_mixChannel a2 b2 p)))"

fun worker_tempToRGB_loop :: "rat \<Rightarrow> stop list \<Rightarrow> rgb" where
  "worker_tempToRGB_loop t (a # b # rest) =
     (if stop_t a \<le> t \<and> t \<le> stop_t b then worker_mixStops a b t
      else worker_tempToRGB_loop t (b # rest))"
| "worker_tempToRGB_loop t [a] = (Num 255, Num 255, Num 255)"
| "worker_tempToRGB_loop t [] = (Num 255, Num 255, Num 255)"

definition worker_tempToRGB :: "jsnum option \<Rightarrow> stop list option \<Rightarrow> error + rgb" where
  "worker_tempToRGB t stops =
     (case t of
        None \<Rightarrow> Inr (Num 255, Num 255, Num 255)
      | Some NaN \<Rightarrow> Inr (Num 255, Num 255, Num 255)
      | Some (Num x) \<Rightarrow>
          (case stops of
             None \<Rightarrow> Inl TypeError
           | Some [] \<Rightarrow> Inl TypeError
           | Some (s # ss) \<Rightarrow>
               if x \<le> stop_t s then Inr (worker_rgbOf (stop_c s))
               else if stop_t (last (s # ss)) \<le> x then Inr (worker_rgbOf (stop_c (last (s # ss))))
               else Inr (worker_tempToRGB_loop x (s # ss))))"

subsection \<open>Bicubic interpolation\<close>

definition worker_catmullRomWeights :: "jsnum \<Rightarrow> jsnum list" where
  "worker_catmullRomWeights t =
     (let t2 = jmul t t; t3 = jmul t2 t
      in [jdiv (jsub (jadd (jneg t3) (jmul (Num 2) t2)) t) (Num 2),
          jdiv (jadd (jsub (jmul (Num 3) t3) (jmul (Num 5) t2)) (Num 2)) (Num 2),
          jdiv (jadd (jadd (jmul (Num (- 3)) t3) (jmul (Num 4) t2)) t) (Num 2),
          jdiv (jsub t3 t2) (Num 2)])"

definition worker_getGridTemp_index :: "int \<Rightarrow> int \<Rightarrow> int" where
  "worker_getGridTemp_index latIdx lngIdx =
     (let latIdx' = max 0 (min (worker_NUM_LAT - 1) latIdx);
          lngIdx' = (if lngIdx < 0 then lngIdx + worker_NUM_LNG
                     else if worker_NUM_LNG \<le> lngIdx then lngIdx - worker_NUM_LNG else lngIdx)
      in latIdx' * worker_NUM_LNG + lngIdx')"

definition worker_getGridTemp :: "jsnum list \<Rightarrow> int \<Rightarrow> int \<Rightarrow> jsnum option" where
  "worker_getGridTemp temps latIdx lngIdx = rdGrid temps (worker_getGridTemp_index latIdx lngIdx)"

definition worker_offsets4x4 :: "(int \<times> int) list" where
  "worker_offsets4x4 = concat (map (\<lambda>dy. map (\<lambda>dx. (dy, dx)) [- 1, 0, 1, 2]) [- 1, 0, 1, 2])"

definition worker_bicubicSample :: "jsnum list \<Rightarrow> jsnum \<Rightarrow> jsnum \<Rightarrow> jsnum" where
  "worker_bicubicSample temps lat lng =
     (case (jdiv (jsub (Num 90) lat) (Num (of_int worker_GRID_STEP)),
            jdiv (jsub lng (Num (of_int worker_LNG_MIN))) (Num (of_int worker_GRID_STEP))) of
        (Num gLat, Num gLng) \<Rightarrow>
          (let latBase = Math_floor gLat;
               lngBase = Math_floor gLng;
               tLat = jsub (Num gLat) (Num (of_int latBase));
               tLng = jsub (Num gLng) (Num (of_int lngBase));
               cells = map (\<lambda>(dy, dx). worker_getGridTemp temps (latBase + dy) (lngBase + dx)) worker_offsets4x4;
               validSum = fold (\<lambda>v s. if v \<noteq> Some NaN then jadd s (toNumber v) else s) cells (Num 0);
               validCount = length (filter (\<lambda>v. v \<noteq> Some NaN) cells);
               raw = map toNumber cells
           in if validCount = 0 then NaN
              else (let fallback = jdiv validSum (Num (of_nat validCount));
                        raw' = (if validCount < 16
                                then map (\<lambda>r. if r = NaN then fallback else r) raw else raw);
                        wLat = worker_catmullRomWeights tLat;
                        wLng = worker_catmullRomWeights tLng
                    in fold (\<lambda>row result.
                          jadd result (jmul (wLat ! row)
                            (fold (\<lambda>col rowVal. jadd rowVal (jmul (wLng ! col) (raw' ! (row * 4 + col))))
                               [0..<4] (Num 0))))
                        [0..<4] (Num 0)))
      | _ \<Rightarrow> NaN)"


subsection \<open>Box blur\<close>

definition worker_blurWindow :: "nat list \<Rightarrow> (nat \<Rightarrow> nat) \<Rightarrow> nat \<Rightarrow> nat \<Rightarrow> jsnum \<times> int" where
  "worker_blurWindow src pos radius n =
     fold (\<lambda>x (sm, cnt). (jadd sm (rdByte src (pos x)), cnt + 1))
       [0..<min (radius + 1) n] (Num 0, 0)"

definition worker_blurSlide :: "nat list \<Rightarrow> (nat \<Rightarrow> nat) \<Rightarrow> nat \<Rightarrow> nat \<Rightarrow> nat \<Rightarrow> jsnum \<times> int \<Rightarrow> jsnum \<times> int" where
  "worker_blurSlide src pos radius n x sc =
     (case sc of (sm, cnt) \<Rightarrow>
        (let nx = x + radius + 1;
             sc1 = (if nx < n then (jadd sm (rdByte src (pos nx)), cnt + 1) else (sm, cnt));
             sc2 = (if radius \<le> x
                    then (jsub (fst sc1) (rdByte src (pos (x - radius))), snd sc1 - 1) else sc1)
         in sc2))"

definition worker_blurAverage :: "jsnum \<times> int \<Rightarrow> jsnum" where
  "worker_blurAverage sc = Num (of_int (toInt32 (jadd (jdiv (fst sc) (Num (of_int (snd sc)))) (Num (1 / 2)))))"

definition worker_blurRow :: "nat list \<Rightarrow> nat \<Rightarrow> nat \<Rightarrow> nat \<Rightarrow> nat \<Rightarrow> nat list \<Rightarrow> nat list" where
  "worker_blurRow data w radius rowOff ch dst =
     fst (fold (\<lambda>x (dst, sc).
            (wrByte (wrByte dst (rowOff + x * 4 + ch) (worker_blurAverage sc)) (rowOff + x * 4 + 3) (Num 255),
             worker_blurSlide data (\<lambda>x. rowOff + x * 4 + ch) radius w x sc))
          [0..<w] (dst, worker_blurWindow data (\<lambda>x. rowOff + x * 4 + ch) radius w))"

definition worker_blurCol :: "nat list \<Rightarrow> nat \<Rightarrow> nat \<Rightarrow> nat \<Rightarrow> nat \<Rightarrow> nat \<Rightarrow> nat list \<Rightarrow> nat list" where
  "worker_blurCol dst w h radius x ch data =
     fst (fold (\<lambda>y (data, sc).
            (wrByte data ((y * w + x) * 4 + ch) (worker_blurAverage sc),
             worker_blurSlide dst (\<lambda>y. (y * w + x) * 4 + ch) radius h y sc))
          [0..<h] (data, worker_blurWindow dst (\<lambda>y. (y * w + x) * 4 + ch) radius h))"

definition worker_blurPass :: "nat \<Rightarrow> nat \<Rightarrow> nat \<Rightarrow> nat list \<times> nat list \<Rightarrow> nat list \<times> nat list" where
  "worker_blurPass w h radius dd =
     (case dd of (data, dst) \<Rightarrow>
        (let dst' = fold (\<lambda>y dst. fold (\<lambda>ch dst. worker_blurRow data w radius (y * w * 4) ch dst) [0..<3] dst)
                      [0..<h] dst;
             data' = fold (\<lambda>x data. fold (\<lambda>ch data. worker_blurCol dst' w h radius x ch data) [0..<3] data)
                      [0..<w] data
         in (data', dst')))"

definition worker_boxBlur :: "nat list \<Rightarrow> nat \<Rightarrow> nat \<Rightarrow> nat \<Rightarrow> nat \<Rightarrow> nat list" where
  "worker_boxBlur data w h radius passes =
     fst (fold (\<lambda>pass dd. worker_blurPass w h radius dd) [0..<passes] (data, replicate (length data) 0))"

subsection \<open>Nearest-neighbor ocean check\<close>

definition worker_isOceanNearest_index :: "rat \<Rightarrow> rat \<Rightarrow> int" where
  "worker_isOceanNearest_index lat lng =
     (let latIdx = Math_round (fl (fl (90 - lat) / of_int worker_GRID_STEP));
          lngIdx = Math_round (fl (fl (lng - of_int worker_LNG_MIN) / of_int worker_GRID_STEP));
          lngIdx' = (if lngIdx < 0 then lngIdx + worker_NUM_LNG
                     else if worker_NUM_LNG \<le> lngIdx then lngIdx - worker_NUM_LNG else lngIdx);
          clampedLat = max 0 (min (worker_NUM_LAT - 1) latIdx)
      in clampedLat * worker_NUM_LNG + lngIdx')"

definition worker_isOceanNearest :: "jsnum list \<Rightarrow> jsnum \<Rightarrow> jsnum \<Rightarrow> bool" where
  "worker_isOceanNearest temps lat lng =
     (case (lat, lng) of
        (Num a, Num b) \<Rightarrow> rdGrid temps (worker_isOceanNearest_index a b) = Some NaN
      | _ \<Rightarrow> False)"

subsection \<open>Render full pixel data\<close>

definition worker_pixelLat :: "nat \<Rightarrow> nat \<Rightarrow> jsnum" where
  "worker_pixelLat y h = jsub (Num 90) (jmul (jdiv (Num (of_nat y)) (Num (of_nat h))) (Num 180))"

definition worker_pixelLng :: "nat \<Rightarrow> nat \<Rightarrow> jsnum" where
  "worker_pixelLng x w = jsub (jmul (jdiv (Num (of_nat x)) (Num (of_nat w))) (Num 360)) (Num 180)"

definition worker_renderPixel ::
  "jsnum list \<Rightarrow> stop list option \<Rightarrow> nat \<Rightarrow> nat \<Rightarrow> nat \<Rightarrow> nat \<Rightarrow> nat list \<times> nat list
     \<Rightarrow> error + nat list \<times> nat list" where
  "worker_renderPixel temps stops w h y x dm =
     (case dm of (data, oceanMask) \<Rightarrow>
        (let lat = worker_pixelLat y h;
             lng = worker_pixelLng x w;
             ocean = worker_isOceanNearest temps lat lng;
             oceanMask' = oceanMask[y * w + x := (if ocean then 1 else 0)];
             idx = (y * w + x) * 4
         in if ocean
            then Inr (wrByte (wrByte (wrByte (wrByte data idx (Num 255)) (idx + 1) (Num 255))
                        (idx + 2) (Num 255)) (idx + 3) (Num 255), oceanMask')
            else (let temp = worker_bicubicSample temps lat lng
                  in case worker_tempToRGB (if temp = NaN then None else Some temp) stops of
                       Inl e \<Rightarrow> Inl e
                     | Inr (r, g, b) \<Rightarrow>
                         Inr (wrByte (wrByte (wrByte (wrByte data idx r) (idx + 1) g)
                                (idx + 2) b) (idx + 3) (Num 255), oceanMask'))))"

definition worker_restamp :: "nat list \<Rightarrow> nat list \<Rightarrow> nat list" where
  "worker_restamp data oceanMask =
     fold (\<lambda>i data. if oceanMask ! i \<noteq> 0
                     then wrByte (wrByte (wrByte data (i * 4) (Num 255)) (i * 4 + 1) (Num 255))
                            (i * 4 + 2) (Num 255)
                     else data)
       [0..<length oceanMask] data"

definition worker_scaledRadius :: "rat \<Rightarrow> nat \<Rightarrow> nat" where
  "worker_scaledRadius b w = nat (max 1 (Math_round (fl (fl (b * of_nat w) / 2048))))"

definition worker_renderPixelData :: "jsnum list \<Rightarrow> opts \<Rightarrow> nat \<Rightarrow> nat \<Rightarrow> error + nat list" where
  "worker_renderPixelData temps opts w h =
     (let stops = (case customStops opts of Some cs \<Rightarrow> Some cs
                   | None \<Rightarrow> worker_COLORWAY_MAP (colorway opts))
      in case forM [0..<h] (\<lambda>y. forM [0..<w] (worker_renderPixel temps stops w h y))
                (replicate (w * h * 4) 0, replicate (w * h) 0) of
           Inl e \<Rightarrow> Inl e
         | Inr (data, oceanMask) \<Rightarrow>
             Inr (case blurRadius opts of
                    Num b \<Rightarrow> if 0 < b
                              then worker_restamp (worker_boxBlur data w h (worker_scaledRadius b w) 3) oceanMask
                              else data
                  | NaN \<Rightarrow> data))"

subsection \<open>Atlas constants\<close>

definition FRAME_W :: nat where "FRAME_W = 512"
definition FRAME_H :: nat where "FRAME_H = 256"
definition ATLAS_COLS :: nat where "ATLAS_COLS = 16"

subsection \<open>The atlas job\<close>

text \<open>
  The messages the worker posts, and those it receives.  The \<open>atlas\<close> message carries
  \<open>numDays\<close>, \<open>cols\<close>, \<open>rows\<close>, \<open>frameW\<close> and \<open>frameH\<close>; its \<open>buffer\<close>, the JPEG encoding of
  the canvas made by the platform, is not modelled.
\<close>

datatype outmsg = Progress nat nat | Atlas nat nat nat nat nat

datatype inmsg = Start "jsnum list" nat opts | Cancel | Other

text \<open>The canvas: its size and the images put on it, each with its offset, in order.
  It is filled white when it is made, so a canvas without images is white.\<close>

record canvas =
  cv_width :: nat
  cv_height :: nat
  cv_images :: "(nat \<times> nat \<times> nat list) list"

text \<open>
  \<open>renderAtlas\<close> is an \<open>async\<close> function.  A call runs without interruption except where
  it awaits: in the timer wait after a day with \<open>day % 5 === 0\<close>, and twice while the
  canvas is encoded (\<open>convertToBlob\<close>, then \<open>arrayBuffer\<close>).  While a call is suspended the
  worker handles the messages that have arrived, and nothing keeps a second \<open>start\<close>
  from being among them: its handler clears the module variable \<open>cancelled\<close> and begins
  another call, which shares that variable.  So the worker holds the flag, the messages
  posted so far, and every call of \<open>renderAtlas\<close> made so far: its arguments, its canvas
  and the place where it stands.  \<open>Waiting day\<close>: suspended in the timer wait, \<open>day\<close> being
  the next value of the loop counter; \<open>Encoding\<close> and \<open>Buffering\<close>: suspended in the first
  and in the second await of the encoding; \<open>Ended\<close>: returned (\<open>CancelledRun\<close>: by one of
  the two \<open>if (cancelled) return\<close>; \<open>Completed\<close>: after the \<open>atlas\<close> message) or left by an
  exception.
\<close>

datatype outcome = Completed | CancelledRun | Thrown error

datatype phase = Waiting nat | Encoding | Buffering | Ended outcome

record job =
  job_temps :: "jsnum list"
  job_numDays :: nat
  job_opts :: opts
  job_atlas :: canvas
  job_phase :: phase

record worker =
  cancelled :: bool
  outbox :: "outmsg list"
  jobs :: "job list"

text \<open>\<open>Math.ceil(numDays / ATLAS_COLS)\<close>\<close>

definition atlasRows :: "nat \<Rightarrow> nat" where
  "atlasRows numDays = nat \<lceil>(of_nat numDays :: rat) / of_nat ATLAS_COLS\<rceil>"

definition atlasW :: nat where
  "atlasW = ATLAS_COLS * FRAME_W"

definition rawH :: "nat \<Rightarrow> nat" where
  "rawH numDays = atlasRows numDays * FRAME_H"

text \<open>
  \<open>Math.ceil(Math.log2(n))\<close> for \<open>n \<ge> 1\<close>, with \<open>Math.log2\<close> taken as the exact logarithm
  (the language leaves its last bit to the implementation).  For \<open>n = 0\<close> the logarithm
  is \<open>-\<infinity>\<close> and \<open>Math.pow(2, -\<infinity>)\<close> is 0.
\<close>

definition ceilLog2 :: "nat \<Rightarrow> nat" where
  "ceilLog2 n = nat (bitLength (int n - 1))"

definition atlasH :: "nat \<Rightarrow> nat" where
  "atlasH numDays = (if rawH numDays = 0 then 0 else 2 ^ ceilLog2 (rawH numDays))"

text \<open>
  The \<open>for\<close> loop over the days that are left, up to the next await or to the end of the
  call, and the messages it posts on the way.  No message is handled while it runs, so
  the flag is the same at every check: \<open>c\<close>.  \<open>subarray\<close> clamps to the buffer, as \<open>take\<close>
  and \<open>drop\<close> do.  When the days are used up the call makes its last check of the flag
  and then awaits the encoder.
\<close>

fun renderAtlas_days :: "bool \<Rightarrow> nat list \<Rightarrow> job \<Rightarrow> job \<times> outmsg list" where
  "renderAtlas_days c [] j = (j\<lparr>job_phase := (if c then Ended CancelledRun else Encoding)\<rparr>, [])"
| "renderAtlas_days c (day # days) j =
     (if c then (j\<lparr>job_phase := Ended CancelledRun\<rparr>, [])
      else (let dayTemps = take (nat worker_NUM_POINTS) (drop (day * nat worker_NUM_POINTS) (job_temps j))
            in case worker_renderPixelData dayTemps (job_opts j) FRAME_W FRAME_H of
                 Inl e \<Rightarrow> (j\<lparr>job_phase := Ended (Thrown e)\<rparr>, [])
               | Inr pixels \<Rightarrow>
                   (let col = day mod ATLAS_COLS;
                        row = day div ATLAS_COLS;
                        j1 = j\<lparr>job_atlas := (job_atlas j)\<lparr>cv_images :=
                                 cv_images (job_atlas j) @ [(col * FRAME_W, row * FRAME_H, pixels)]\<rparr>\<rparr>;
                        m = Progress (day + 1) (job_numDays j)
                    in if day mod 5 = 0 then (j1\<lparr>job_phase := Waiting (day + 1)\<rparr>, [m])
                       else (case renderAtlas_days c days j1 of (j2, ms) \<Rightarrow> (j2, m # ms)))))"

text \<open>A call of \<open>renderAtlas\<close>: a fresh white canvas, then the loop from day 0 up to the
  first await.\<close>

definition renderAtlas :: "jsnum list \<Rightarrow> nat \<Rightarrow> opts \<Rightarrow> worker \<Rightarrow> worker" where
  "renderAtlas allTemps numDays opts w =
     (let j0 = \<lparr>job_temps = allTemps, job_numDays = numDays, job_opts = opts,
                job_atlas = \<lparr>cv_width = atlasW, cv_height = atlasH numDays, cv_images = []\<rparr>,
                job_phase = Waiting 0\<rparr>
      in case renderAtlas_days (cancelled w) [0..<numDays] j0 of
           (j, ms) \<Rightarrow> w\<lparr>jobs := jobs w @ [j], outbox := outbox w @ ms\<rparr>)"

text \<open>
  The call number \<open>i\<close> continues after the await in which it is suspended: after the timer
  with the rest of the loop, under the flag as it is now; after \<open>convertToBlob\<close> with the
  second await; after \<open>arrayBuffer\<close> with the \<open>atlas\<close> message.  The encoder is taken to
  succeed.
\<close>

definition resume :: "nat \<Rightarrow> worker \<Rightarrow> worker" where
  "resume i w =
     (if i < length (jobs w)
      then (let j = jobs w ! i
            in case job_phase j of
                 Waiting day \<Rightarrow>
                   (case renderAtlas_days (cancelled w) [day..<job_numDays j] j of
                      (j', ms) \<Rightarrow> w\<lparr>jobs := (jobs w)[i := j'], outbox := outbox w @ ms\<rparr>)
               | Encoding \<Rightarrow> w\<lparr>jobs := (jobs w)[i := j\<lparr>job_phase := Buffering\<rparr>]\<rparr>
               | Buffering \<Rightarrow>
                   w\<lparr>jobs := (jobs w)[i := j\<lparr>job_phase := Ended Completed\<rparr>],
                     outbox := outbox w @ [Atlas (job_numDays j) ATLAS_COLS (atlasRows (job_numDays j))
                                             FRAME_W FRAME_H]\<rparr>
               | Ended out \<Rightarrow> w)
      else w)"

text \<open>\<open>self.onmessage\<close>, up to the first await of the call it makes.\<close>

definition onmessage :: "inmsg \<Rightarrow> worker \<Rightarrow> worker" where
  "onmessage msg w =
     (case msg of
        Start temps numDays opts \<Rightarrow> renderAtlas temps numDays opts (w\<lparr>cancelled := False\<rparr>)
      | Cancel \<Rightarrow> w\<lparr>cancelled := True\<rparr>
      | Other \<Rightarrow> w)"

text \<open>
  An execution of the worker is a list of events, each run to its end before the next:
  a message is handled, or the platform lets a suspended call continue.  Every order of
  events is allowed.
\<close>

datatype event = Message inmsg | Resume nat

fun dispatch :: "event \<Rightarrow> worker \<Rightarrow> worker" where
  "dispatch (Message msg) w = onmessage msg w"
| "dispatch (Resume i) w = resume i w"

definition run :: "event list \<Rightarrow> worker \<Rightarrow> worker" where
  "run evs w = fold dispatch evs w"


section \<open>Properties of the rounding to double precision\<close>

lemma bitLength_nonneg: "0 \<le> bitLength a"
proof (induction a rule: bitLength.induct)
  case (1 a)
  show ?case
  proof (cases "a \<le> 0")
    case True
    then show ?thesis by (subst bitLength.simps) simp
  next
    case False
    then have "0 \<le> bitLength (a div 2)" using "1.IH" by simp
    with False show ?thesis by (subst bitLength.simps) simp
  qed
qed

lemma bitLength_pos: "0 < a \<Longrightarrow> 1 \<le> bitLength a"
  using bitLength_nonneg[of "a div 2"] by (subst bitLength.simps) simp

lemma bitLength_bounds:
  "0 < a \<Longrightarrow> 2 ^ nat (bitLength a - 1) \<le> a \<and> a < 2 ^ nat (bitLength a)"
proof (induction a rule: bitLength.induct)
  case (1 a)
  show ?case
  proof (cases "a = 1")
    case True
    have "bitLength 1 = 1" by (simp add: bitLength.simps[of 1] bitLength.simps[of 0])
    with True show ?thesis by simp
  next
    case False
    with "1.prems" have h: "0 < a div 2" by simp
    define b where "b = bitLength (a div 2)"
    have b1: "1 \<le> b" unfolding b_def using h by (rule bitLength_pos)
    have IH: "2 ^ nat (b - 1) \<le> a div 2 \<and> a div 2 < 2 ^ nat b"
      unfolding b_def using "1.IH" "1.prems" h by simp
    have ba: "bitLength a = 1 + b"
      unfolding b_def using "1.prems" by (subst bitLength.simps) simp
    have p: "(2::int) ^ nat b = 2 * 2 ^ nat (b - 1)"
      using b1 by (metis Suc_nat_eq_nat_zadd1 add.commute diff_add_cancel diff_ge_0_iff_ge power_Suc)
    have q: "(2::int) ^ nat (1 + b) = 2 * 2 ^ nat b"
      using b1 by (simp add: nat_add_distrib)
    have "nat (bitLength a - 1) = nat b" using ba by simp
    moreover have "2 ^ nat b \<le> a" using IH p by linarith
    moreover have "a < 2 ^ nat (1 + b)" using IH q by linarith
    ultimately show ?thesis using ba by simp
  qed
qed


lemma ilog2_bounds:
  assumes "0 < x"
  shows "2 powi (ilog2 x) \<le> x \<and> x < 2 powi (ilog2 x + 1)"
proof -
  obtain a b where q: "quotient_of x = (a, b)" by (cases "quotient_of x")
  have b0: "0 < b" using q by (rule quotient_of_denom_pos)
  have xab: "x = of_int a / of_int b" using q by (rule quotient_of_div)
  have a0: "0 < a" using assms b0 xab by (simp add: zero_less_divide_iff)
  define la where "la = bitLength a"
  define lb where "lb = bitLength b"
  have la1: "1 \<le> la" and lb1: "1 \<le> lb"
    unfolding la_def lb_def using a0 b0 by (auto intro: bitLength_pos)
  have pw: "(2::rat) powi k = of_int (2 ^ nat k)" if "0 \<le> k" for k
    using that by (simp add: power_int_def)
  note ba = bitLength_bounds[OF a0, folded la_def]
  note bb = bitLength_bounds[OF b0, folded lb_def]
  have A: "of_int a < (2::rat) powi la"
  proof -
    from ba have "(of_int a::rat) < of_int (2 ^ nat la)" by (simp only: of_int_less_iff)
    then show ?thesis using la1 by (simp add: power_int_def)
  qed
  have A': "(2::rat) powi (la - 1) \<le> of_int a"
  proof -
    from ba have "(of_int (2 ^ nat (la - 1))::rat) \<le> of_int a" by (simp only: of_int_le_iff)
    then show ?thesis using la1 by (simp add: power_int_def)
  qed
  have B: "of_int b < (2::rat) powi lb"
  proof -
    from bb have "(of_int b::rat) < of_int (2 ^ nat lb)" by (simp only: of_int_less_iff)
    then show ?thesis using lb1 by (simp add: power_int_def)
  qed
  have B': "(2::rat) powi (lb - 1) \<le> of_int b"
  proof -
    from bb have "(of_int (2 ^ nat (lb - 1))::rat) \<le> of_int b" by (simp only: of_int_le_iff)
    then show ?thesis using lb1 by (simp add: power_int_def)
  qed
  have pos: "0 < (2::rat) powi k" for k by simp
  have up: "x < 2 powi (la - lb + 1)"
  proof -
    have "x < 2 powi la / 2 powi (lb - 1)"
      unfolding xab using a0 A B' pos[of "lb - 1"]
      by (intro frac_less) simp_all
    also have "\<dots> = 2 powi (la - (lb - 1))" by (simp add: power_int_diff)
    finally show ?thesis by (simp add: algebra_simps)
  qed
  have lo: "2 powi (la - lb - 1) < x"
  proof -
    have "2 powi (la - 1) / 2 powi lb < x"
      unfolding xab using b0 A' B pos[of "la - 1"]
      by (intro frac_less2) simp_all
    moreover have "(2::rat) powi (la - 1) / 2 powi lb = 2 powi (la - 1 - lb)"
      by (simp add: power_int_diff)
    ultimately show ?thesis by (simp add: algebra_simps)
  qed
  have il: "ilog2 x = (if 2 powi (la - lb) \<le> x then la - lb else la - lb - 1)"
    unfolding ilog2_def q la_def lb_def by (simp add: Let_def)
  show ?thesis
  proof (cases "2 powi (la - lb) \<le> x")
    case True
    then show ?thesis using up il by simp
  next
    case False
    then show ?thesis using lo il by (simp add: less_imp_le)
  qed
qed

lemma ilog2_unique:
  assumes "2 powi k \<le> x" "x < 2 powi (k + 1)"
  shows "ilog2 x = k"
proof -
  have x0: "0 < x" using assms(1) by (rule less_le_trans[rotated]) simp
  note b = ilog2_bounds[OF x0]
  have "2 powi k < (2::rat) powi (ilog2 x + 1)" using assms(1) b by linarith
  then have 1: "k < ilog2 x + 1"
    using power_int_increasing[of "ilog2 x + 1" k "2::rat"] by (cases "k < ilog2 x + 1") auto
  have "2 powi (ilog2 x) < (2::rat) powi (k + 1)" using assms(2) b by linarith
  then have 2: "ilog2 x < k + 1"
    using power_int_increasing[of "k + 1" "ilog2 x" "2::rat"] by (cases "ilog2 x < k + 1") auto
  from 1 2 show ?thesis by linarith
qed


lemma roundHalfEven_cases:
  "roundHalfEven m = \<lfloor>m\<rfloor> \<and> m - of_int \<lfloor>m\<rfloor> \<le> 1 / 2
   \<or> roundHalfEven m = \<lfloor>m\<rfloor> + 1 \<and> 1 / 2 \<le> m - of_int \<lfloor>m\<rfloor>"
  by (auto simp: roundHalfEven_def Let_def)

lemma roundHalfEven_err: "\<bar>of_int (roundHalfEven m) - m\<bar> \<le> 1 / 2"
proof -
  have "of_int \<lfloor>m\<rfloor> \<le> m" "m < of_int \<lfloor>m\<rfloor> + 1" by linarith+
  then show ?thesis using roundHalfEven_cases[of m] by (auto simp: abs_le_iff)
qed

lemma roundHalfEven_of_int [simp]: "roundHalfEven (of_int n) = n"
  by (simp add: roundHalfEven_def)

lemma roundHalfEven_mono:
  assumes "m \<le> m'"
  shows "roundHalfEven m \<le> roundHalfEven m'"
proof (cases "\<lfloor>m\<rfloor> = \<lfloor>m'\<rfloor>")
  case True
  then show ?thesis using assms by (auto simp: roundHalfEven_def Let_def)
next
  case False
  with assms have "\<lfloor>m\<rfloor> + 1 \<le> \<lfloor>m'\<rfloor>" using floor_mono[OF assms] by linarith
  moreover have "roundHalfEven m \<le> \<lfloor>m\<rfloor> + 1" using roundHalfEven_cases[of m] by auto
  moreover have "\<lfloor>m'\<rfloor> \<le> roundHalfEven m'" using roundHalfEven_cases[of m'] by auto
  ultimately show ?thesis by linarith
qed

lemma significand_bounds:
  assumes "x \<noteq> 0"
  shows "2 ^ 52 \<le> \<bar>x\<bar> / 2 powi (ilog2 \<bar>x\<bar> - 52) \<and> \<bar>x\<bar> / 2 powi (ilog2 \<bar>x\<bar> - 52) < 2 ^ 53"
proof -
  define L where "L = ilog2 \<bar>x\<bar>"
  have b: "2 powi L \<le> \<bar>x\<bar>" "\<bar>x\<bar> < 2 powi (L + 1)"
    using ilog2_bounds[of "\<bar>x\<bar>"] assms unfolding L_def by auto
  have p: "0 < (2::rat) powi (L - 52)" by simp
  have e1: "(2::rat) powi L = 2 ^ 52 * 2 powi (L - 52)"
    by (simp add: power_int_diff)
  have e2: "(2::rat) powi (L + 1) = 2 ^ 53 * 2 powi (L - 52)"
    by (simp add: power_int_diff power_int_add)
  have "2 ^ 52 \<le> \<bar>x\<bar> / 2 powi (L - 52)"
    using b(1) p unfolding e1 by (simp add: pos_le_divide_eq)
  moreover have "\<bar>x\<bar> / 2 powi (L - 52) < 2 ^ 53"
    using b(2) p unfolding e2 by (simp add: pos_divide_less_eq)
  ultimately show ?thesis unfolding L_def by simp
qed

lemma fl_0 [simp]: "fl 0 = 0"
  by (simp add: fl_def)

lemma fl_neg: "fl (- x) = - fl x"
  by (simp add: fl_def Let_def)

lemma fl_unfold:
  "x \<noteq> 0 \<Longrightarrow> fl x = sgn x * of_int (roundHalfEven (\<bar>x\<bar> / 2 powi (ilog2 \<bar>x\<bar> - 52))) * 2 powi (ilog2 \<bar>x\<bar> - 52)"
  by (simp add: fl_def Let_def)

lemma fl_err: "\<bar>fl x - x\<bar> \<le> \<bar>x\<bar> / 2 ^ 53"
proof (cases "x = 0")
  case True
  then show ?thesis by simp
next
  case False
  define e where "e = ilog2 \<bar>x\<bar> - 52"
  define m where "m = \<bar>x\<bar> / 2 powi e"
  define n where "n = roundHalfEven m"
  have p: "0 < (2::rat) powi e" by simp
  have xm: "\<bar>x\<bar> = m * 2 powi e" unfolding m_def by simp
  have x: "x = sgn x * m * 2 powi e"
    using xm by (metis mult.assoc sgn_mult_abs)
  have f: "fl x = sgn x * of_int n * 2 powi e"
    unfolding n_def m_def e_def using False by (rule fl_unfold)
  have "fl x - x = sgn x * (of_int n - m) * 2 powi e"
    by (subst (2) x) (simp add: f algebra_simps)
  then have "\<bar>fl x - x\<bar> = \<bar>of_int n - m\<bar> * 2 powi e"
    using False by (simp add: abs_mult abs_sgn_eq)
  also have "\<dots> \<le> (1 / 2) * 2 powi e"
    unfolding n_def by (intro mult_right_mono roundHalfEven_err) simp
  also have "\<dots> \<le> (m / 2 ^ 53) * 2 powi e"
  proof -
    have "2 ^ 52 \<le> m" using significand_bounds[OF False] unfolding m_def e_def by simp
    then have "1 / 2 \<le> m / 2 ^ 53" by simp
    then show ?thesis by (intro mult_right_mono) simp_all
  qed
  also have "\<dots> = \<bar>x\<bar> / 2 ^ 53" by (simp add: xm)
  finally show ?thesis .
qed


lemma roundHalfEven_significand:
  assumes "x \<noteq> 0"
  shows "2 ^ 52 \<le> roundHalfEven (\<bar>x\<bar> / 2 powi (ilog2 \<bar>x\<bar> - 52))
       \<and> roundHalfEven (\<bar>x\<bar> / 2 powi (ilog2 \<bar>x\<bar> - 52)) \<le> 2 ^ 53"
proof -
  note b = significand_bounds[OF assms]
  have "roundHalfEven (of_int (2 ^ 52)) \<le> roundHalfEven (\<bar>x\<bar> / 2 powi (ilog2 \<bar>x\<bar> - 52))"
    using b by (intro roundHalfEven_mono) simp
  moreover have "roundHalfEven (\<bar>x\<bar> / 2 powi (ilog2 \<bar>x\<bar> - 52)) \<le> roundHalfEven (of_int (2 ^ 53))"
    using b by (intro roundHalfEven_mono) simp
  ultimately show ?thesis by (simp only: roundHalfEven_of_int) 
qed

lemma fl_pos: "0 < x \<Longrightarrow> 0 < fl x"
  using roundHalfEven_significand[of x]
  by (simp add: fl_unfold zero_less_mult_iff)

lemma fl_zero_iff [simp]: "fl x = 0 \<longleftrightarrow> x = 0"
proof
  assume "fl x = 0"
  show "x = 0"
  proof (rule ccontr)
    assume "x \<noteq> 0"
    then consider "0 < x" | "0 < - x" by linarith
    then show False
    proof cases
      case 1
      with fl_pos[of x] \<open>fl x = 0\<close> show False by simp
    next
      case 2
      with fl_pos[of "- x"] \<open>fl x = 0\<close> show False by (simp add: fl_neg)
    qed
  qed
qed simp

lemma fl_exact_significand:
  assumes "x \<noteq> 0" "\<bar>x\<bar> / 2 powi (ilog2 \<bar>x\<bar> - 52) = of_int k"
  shows "fl x = x"
proof -
  have "fl x = sgn x * (\<bar>x\<bar> / 2 powi (ilog2 \<bar>x\<bar> - 52)) * 2 powi (ilog2 \<bar>x\<bar> - 52)"
    using assms by (simp add: fl_unfold)
  also have "\<dots> = sgn x * \<bar>x\<bar>" by simp
  finally show ?thesis by (simp add: sgn_mult_abs)
qed

lemma fl_dyadic:
  assumes "\<bar>n\<bar> < 2 ^ 53"
  shows "fl (of_int n * 2 powi j) = of_int n * 2 powi j"
proof (cases "n = 0")
  case True
  then show ?thesis by simp
next
  case False
  define x :: rat where "x = of_int n * 2 powi j"
  have x0: "x \<noteq> 0" using False unfolding x_def by simp
  have ax: "\<bar>x\<bar> = of_int \<bar>n\<bar> * 2 powi j" unfolding x_def by (simp add: abs_mult)
  define L where "L = ilog2 \<bar>x\<bar>"
  have "2 powi L \<le> \<bar>x\<bar>" using ilog2_bounds[of "\<bar>x\<bar>"] x0 unfolding L_def by simp
  also have "\<bar>x\<bar> < 2 ^ 53 * 2 powi j"
  proof -
    have "(of_int \<bar>n\<bar> :: rat) < of_int (2 ^ 53)" using assms by (simp only: of_int_less_iff)
    then show ?thesis unfolding ax by (intro mult_strict_right_mono) simp_all
  qed
  also have "\<dots> = 2 powi (53 + j)" by (simp add: power_int_add)
  finally have "L < 53 + j"
    using power_int_increasing[of "53 + j" L "2::rat"] by (cases "L < 53 + j") auto
  then have d: "0 \<le> j - (L - 52)" by simp
  have "\<bar>x\<bar> / 2 powi (L - 52) = of_int \<bar>n\<bar> * 2 powi (j - (L - 52))"
    unfolding ax by (simp add: power_int_diff)
  also have "\<dots> = of_int (\<bar>n\<bar> * 2 ^ nat (j - (L - 52)))"
    using d by (simp add: power_int_def)
  finally show ?thesis
    using fl_exact_significand[OF x0] unfolding L_def x_def by blast
qed

lemma fl_of_int: "\<bar>n\<bar> < 2 ^ 53 \<Longrightarrow> fl (of_int n) = of_int n"
  using fl_dyadic[of n 0] by simp

lemma ilog2_mono:
  assumes "0 < x" "x \<le> y"
  shows "ilog2 x \<le> ilog2 y"
proof -
  have "2 powi (ilog2 x) \<le> x" using ilog2_bounds[OF assms(1)] by simp
  also note assms(2)
  also have "y < 2 powi (ilog2 y + 1)" using ilog2_bounds[of y] assms by simp
  finally have "ilog2 x < ilog2 y + 1"
    using power_int_increasing[of "ilog2 y + 1" "ilog2 x" "2::rat"]
    by (cases "ilog2 x < ilog2 y + 1") auto
  then show ?thesis by simp
qed

lemma fl_mono_pos:
  assumes "0 < x" "x \<le> y"
  shows "fl x \<le> fl y"
proof -
  have y0: "0 < y" using assms by simp
  define ex where "ex = ilog2 \<bar>x\<bar> - 52"
  define ey where "ey = ilog2 \<bar>y\<bar> - 52"
  define nx where "nx = roundHalfEven (\<bar>x\<bar> / 2 powi ex)"
  define ny where "ny = roundHalfEven (\<bar>y\<bar> / 2 powi ey)"
  have fx: "fl x = of_int nx * 2 powi ex"
    using assms(1) unfolding nx_def ex_def by (simp add: fl_unfold)
  have fy: "fl y = of_int ny * 2 powi ey"
    using y0 unfolding ny_def ey_def by (simp add: fl_unfold)
  have bx: "nx \<le> 2 ^ 53" using roundHalfEven_significand[of x] assms(1) unfolding nx_def ex_def by simp
  have bY: "2 ^ 52 \<le> ny" using roundHalfEven_significand[of y] y0 unfolding ny_def ey_def by simp
  have le: "ex \<le> ey" unfolding ex_def ey_def using ilog2_mono[of "\<bar>x\<bar>" "\<bar>y\<bar>"] assms by simp
  show ?thesis
  proof (cases "ex = ey")
    case True
    have "\<bar>x\<bar> / 2 powi ex \<le> \<bar>y\<bar> / 2 powi ey"
      unfolding True using assms by (intro divide_right_mono) simp_all
    then have "nx \<le> ny" unfolding nx_def ny_def by (rule roundHalfEven_mono)
    then have "(of_int nx :: rat) \<le> of_int ny" by simp
    then show ?thesis unfolding fx fy True by (intro mult_right_mono) simp_all
  next
    case False
    with le have lt: "ex + 1 \<le> ey" by simp
    have "of_int nx * 2 powi ex \<le> (of_int (2 ^ 53) :: rat) * 2 powi ex"
      using bx by (intro mult_right_mono) (simp_all only: of_int_le_iff, simp)
    also have "\<dots> = 2 ^ 52 * 2 powi (ex + 1)" by (simp add: power_int_add)
    also have "\<dots> \<le> 2 ^ 52 * 2 powi ey"
      using lt by (intro mult_left_mono power_int_increasing) simp_all
    also have "\<dots> \<le> of_int ny * 2 powi ey"
    proof -
      have "(of_int (2 ^ 52) :: rat) \<le> of_int ny" using bY by (simp only: of_int_le_iff)
      then show ?thesis by (intro mult_right_mono) simp_all
    qed
    finally show ?thesis unfolding fx fy .
  qed
qed

lemma fl_mono:
  assumes "x \<le> y"
  shows "fl x \<le> fl y"
proof -
  consider "0 < x" | "x \<le> 0" "0 \<le> y" | "y < 0" by linarith
  then show ?thesis
  proof cases
    case 1
    then show ?thesis using assms by (rule fl_mono_pos)
  next
    case 2
    have "fl x \<le> 0" using fl_pos[of "- x"] 2(1) by (cases "x = 0") (simp_all add: fl_neg)
    moreover have "0 \<le> fl y" using fl_pos[of y] 2(2) by (cases "y = 0") (simp_all add: less_imp_le)
    ultimately show ?thesis by simp
  next
    case 3
    then have "fl (- y) \<le> fl (- x)" using assms by (intro fl_mono_pos) simp_all
    then show ?thesis by (simp add: fl_neg)
  qed
qed

lemma fl_numeral [simp]: "numeral k < (2::int) ^ 53 \<Longrightarrow> fl (numeral k) = numeral k"
  using fl_of_int[of "numeral k"] by simp

lemma fl_neg_numeral [simp]: "numeral k < (2::int) ^ 53 \<Longrightarrow> fl (- numeral k) = - numeral k"
  by (simp add: fl_neg)

lemma fl_between:
  assumes "a \<le> x" "x \<le> b" "fl a = a" "fl b = b"
  shows "a \<le> fl x \<and> fl x \<le> b"
  using fl_mono[OF assms(1)] fl_mono[OF assms(2)] assms(3,4) by simp

text \<open>The error of one rounded operation on operands that carry errors themselves.\<close>

lemma fl_err_bound: "\<bar>x\<bar> \<le> M \<Longrightarrow> \<bar>fl x - x\<bar> \<le> M / 2 ^ 53"
proof -
  assume "\<bar>x\<bar> \<le> M"
  then have "\<bar>x\<bar> / 2 ^ 53 \<le> M / 2 ^ 53" by (intro divide_right_mono) simp_all
  with fl_err[of x] show ?thesis by linarith
qed


lemma fl_sub_err:
  assumes "\<bar>x - X\<bar> \<le> ex" "\<bar>y - Y\<bar> \<le> ey" "\<bar>X - Y\<bar> \<le> M"
  shows "\<bar>fl (x - y) - (X - Y)\<bar> \<le> ex + ey + (M + ex + ey) / 2 ^ 53"
proof -
  have "\<bar>x - y\<bar> \<le> M + ex + ey" using assms by linarith
  from fl_err_bound[OF this] show ?thesis using assms by linarith
qed



section \<open>Grid indexing\<close>

lemma grid_consts:
  "NUM_LAT = 91" "NUM_LNG = 181" "NUM_POINTS = 16471"
  by (simp_all add: NUM_POINTS_def NUM_LAT_def NUM_LNG_def LAT_MAX_def LAT_MIN_def LNG_MAX_def
      LNG_MIN_def GRID_STEP_def)

lemma getGridTemp_index_range:
  assumes "- NUM_LNG \<le> lngIdx" "lngIdx < 2 * NUM_LNG"
  shows "getGridTemp_index latIdx lngIdx = max 0 (min (NUM_LAT - 1) latIdx) * NUM_LNG + lngIdx mod NUM_LNG"
    and "0 \<le> getGridTemp_index latIdx lngIdx" and "getGridTemp_index latIdx lngIdx < NUM_POINTS"
proof -
  define r where "r = max 0 (min (NUM_LAT - 1) latIdx)"
  define c where "c = (if lngIdx < 0 then lngIdx + NUM_LNG
                     else if NUM_LNG \<le> lngIdx then lngIdx - NUM_LNG else lngIdx)"
  have g: "getGridTemp_index latIdx lngIdx = r * NUM_LNG + c"
    unfolding getGridTemp_index_def r_def c_def by (simp add: Let_def)
  have r: "0 \<le> r" "r \<le> 90" unfolding r_def by (simp_all add: grid_consts)
  have c3: "c = lngIdx mod 181"
  proof -
    consider "lngIdx < 0" | "0 \<le> lngIdx" "lngIdx < 181" | "181 \<le> lngIdx" by linarith
    then show ?thesis
    proof cases
      case 1
      have "lngIdx mod 181 = (lngIdx + 181) mod 181" by simp
      also have "\<dots> = lngIdx + 181"
        using 1 assms(1) unfolding grid_consts by (intro mod_pos_pos_trivial) simp_all
      finally show ?thesis using 1 unfolding c_def grid_consts by simp
    next
      case 2
      then show ?thesis unfolding c_def grid_consts by (simp add: mod_pos_pos_trivial)
    next
      case 3
      have "lngIdx mod 181 = (lngIdx - 181) mod 181" by simp
      also have "\<dots> = lngIdx - 181"
        using 3 assms(2) unfolding grid_consts by (intro mod_pos_pos_trivial) simp_all
      finally show ?thesis using 3 unfolding c_def grid_consts by simp
    qed
  qed
  have c: "0 \<le> c" "c < 181" "c = lngIdx mod 181"
    using c3 by simp_all
  show "getGridTemp_index latIdx lngIdx = max 0 (min (NUM_LAT - 1) latIdx) * NUM_LNG + lngIdx mod NUM_LNG"
    using g c(3) unfolding r_def grid_consts by simp
  have "r * 181 \<le> 90 * 181" using r by (intro mult_right_mono) simp_all
  then show "0 \<le> getGridTemp_index latIdx lngIdx" "getGridTemp_index latIdx lngIdx < NUM_POINTS"
    using g r c unfolding grid_consts by simp_all
qed

text \<open>
  Claim C6, as amended.  For a grid of \<open>NUM_POINTS\<close> cells and a column index within one
  period of the grid, \<open>- NUM_LNG \<le> lngIdx < 2 * NUM_LNG\<close>, \<open>getGridTemp\<close> reads the cell at
  row \<open>clamp(latIdx, 0, NUM_LAT - 1)\<close> and column \<open>lngIdx mod NUM_LNG\<close>: column \<open>-1\<close> reads
  what column \<open>NUM_LNG - 1\<close> reads, column \<open>NUM_LNG\<close> what column 0 reads, row \<open>-5\<close> what
  row 0 reads, row \<open>NUM_LAT + 5\<close> what row \<open>NUM_LAT - 1\<close> reads.  The wrap is a single
  step, so the column must lie within one period.
\<close>

theorem getGridTemp_wrap_clamp:
  assumes "int (length temps) = NUM_POINTS" "- NUM_LNG \<le> lngIdx" "lngIdx < 2 * NUM_LNG"
  shows "getGridTemp temps latIdx lngIdx
           = Some (temps ! nat (max 0 (min (NUM_LAT - 1) latIdx) * NUM_LNG + lngIdx mod NUM_LNG))
       \<and> getGridTemp temps latIdx (- 1) = getGridTemp temps latIdx (NUM_LNG - 1)
       \<and> getGridTemp temps latIdx NUM_LNG = getGridTemp temps latIdx 0
       \<and> getGridTemp temps (- 5) lngIdx = getGridTemp temps 0 lngIdx
       \<and> getGridTemp temps (NUM_LAT + 5) lngIdx = getGridTemp temps (NUM_LAT - 1) lngIdx"
proof -
  note r = getGridTemp_index_range[OF assms(2,3), of latIdx]
  have "getGridTemp temps latIdx lngIdx
           = Some (temps ! nat (max 0 (min (NUM_LAT - 1) latIdx) * NUM_LNG + lngIdx mod NUM_LNG))"
    unfolding getGridTemp_def rdGrid_def using r assms(1) by simp
  moreover have "getGridTemp_index latIdx (- 1) = getGridTemp_index latIdx (NUM_LNG - 1)"
    "getGridTemp_index latIdx NUM_LNG = getGridTemp_index latIdx 0"
    "getGridTemp_index (- 5) lngIdx = getGridTemp_index 0 lngIdx"
    "getGridTemp_index (NUM_LAT + 5) lngIdx = getGridTemp_index (NUM_LAT - 1) lngIdx"
    by (simp_all add: getGridTemp_index_def grid_consts Let_def)
  ultimately show ?thesis unfolding getGridTemp_def by simp
qed

text \<open>The theorem at row \<open>-5\<close>, column \<open>-1\<close> of a grid filled with 7.\<close>

theorem getGridTemp_wrap_clamp_witness:
  "getGridTemp (replicate 16471 (Num 7)) (- 5) (- 1) = Some (Num 7)"
  using getGridTemp_wrap_clamp[of "replicate 16471 (Num 7)" "- 1" "- 5"]
  by (simp add: grid_consts)

text \<open>
  Claim C6 as stated, for every integer column, fails: at row 0, column 362 the single
  wrap step gives column 181, and the read lands on cell 181 (row 1, column 0) instead
  of cell 0 (row 0, column \<open>362 mod 181 = 0\<close>).
\<close>

theorem getGridTemp_far_column_counterexample:
  "getGridTemp ((replicate 16471 (Num 0))[181 := Num 1]) 0 362 = Some (Num 1)
   \<and> ((replicate 16471 (Num 0))[181 := Num 1]) ! nat (max 0 (min (NUM_LAT - 1) 0) * NUM_LNG + 362 mod NUM_LNG) = Num 0"
  by (simp add: getGridTemp_def getGridTemp_index_def rdGrid_def grid_consts Let_def)

section \<open>The color ramp\<close>

lemma Math_round_of_int [simp]: "Math_round (of_int n) = n"
  by (simp add: Math_round_def) linarith


lemma fl_1 [simp]: "fl 1 = 1"
  using fl_of_int[of 1] by simp



































section \<open>The two copies of the pipeline\<close>

lemma worker_consts_eq:
  "worker_GRID_STEP = GRID_STEP" "worker_LAT_MIN = LAT_MIN" "worker_LAT_MAX = LAT_MAX"
  "worker_LNG_MIN = LNG_MIN" "worker_NUM_LAT = NUM_LAT" "worker_NUM_LNG = NUM_LNG"
  "worker_NUM_POINTS = NUM_POINTS"
  by (simp_all add: worker_GRID_STEP_def GRID_STEP_def worker_LAT_MIN_def LAT_MIN_def
      worker_LAT_MAX_def LAT_MAX_def worker_LNG_MIN_def LNG_MIN_def worker_NUM_LAT_def NUM_LAT_def
      worker_NUM_LNG_def NUM_LNG_def LNG_MAX_def worker_NUM_POINTS_def NUM_POINTS_def)

lemma worker_stops_eq:
  "worker_THERMAL_STOPS = THERMAL_STOPS" "worker_CLASSIC_STOPS = CLASSIC_STOPS"
  "worker_EARTH_STOPS = EARTH_STOPS" "worker_VIVID_STOPS = VIVID_STOPS"
  by (simp_all only: worker_THERMAL_STOPS_def THERMAL_STOPS_def worker_CLASSIC_STOPS_def
      CLASSIC_STOPS_def worker_EARTH_STOPS_def EARTH_STOPS_def worker_VIVID_STOPS_def VIVID_STOPS_def)

lemma worker_COLORWAY_MAP_eq: "worker_COLORWAY_MAP = COLORWAY_MAP"
  by (intro ext) (simp only: worker_COLORWAY_MAP_def COLORWAY_MAP_def worker_stops_eq)

lemma worker_rgbOf_eq: "worker_rgbOf = rgbOf"
  unfolding worker_rgbOf_def rgbOf_def worker_consts_eq worker_stops_eq worker_COLORWAY_MAP_eq LAT_MAX_def
  by (intro ext) simp

lemma worker_mixChannel_eq: "worker_mixChannel = mixChannel"
  unfolding worker_mixChannel_def mixChannel_def worker_consts_eq worker_stops_eq worker_COLORWAY_MAP_eq worker_rgbOf_eq LAT_MAX_def
  by (intro ext) simp

lemma worker_mixStops_eq: "worker_mixStops = mixStops"
  unfolding worker_mixStops_def mixStops_def worker_consts_eq worker_stops_eq worker_COLORWAY_MAP_eq worker_rgbOf_eq worker_mixChannel_eq LAT_MAX_def
  by (intro ext) simp

lemma worker_tempToRGB_loop_eq: "worker_tempToRGB_loop t stops = tempToRGB_loop t stops"
  by (induction t stops rule: tempToRGB_loop.induct) (simp_all add: worker_mixStops_eq)

lemma worker_tempToRGB_eq: "worker_tempToRGB = tempToRGB"
  unfolding worker_tempToRGB_def tempToRGB_def worker_consts_eq worker_stops_eq worker_COLORWAY_MAP_eq worker_rgbOf_eq worker_mixChannel_eq worker_mixStops_eq worker_tempToRGB_loop_eq LAT_MAX_def
  by (intro ext) simp

lemma worker_catmullRomWeights_eq: "worker_catmullRomWeights = catmullRomWeights"
  unfolding worker_catmullRomWeights_def catmullRomWeights_def worker_consts_eq worker_stops_eq worker_COLORWAY_MAP_eq worker_rgbOf_eq worker_mixChannel_eq worker_mixStops_eq worker_tempToRGB_loop_eq worker_tempToRGB_eq LAT_MAX_def
  by (intro ext) simp

lemma worker_getGridTemp_index_eq: "worker_getGridTemp_index = getGridTemp_index"
  unfolding worker_getGridTemp_index_def getGridTemp_index_def worker_consts_eq worker_stops_eq worker_COLORWAY_MAP_eq worker_rgbOf_eq worker_mixChannel_eq worker_mixStops_eq worker_tempToRGB_loop_eq worker_tempToRGB_eq worker_catmullRomWeights_eq LAT_MAX_def
  by (intro ext) simp

lemma worker_getGridTemp_eq: "worker_getGridTemp = getGridTemp"
  unfolding worker_getGridTemp_def getGridTemp_def worker_consts_eq worker_stops_eq worker_COLORWAY_MAP_eq worker_rgbOf_eq worker_mixChannel_eq worker_mixStops_eq worker_tempToRGB_loop_eq worker_tempToRGB_eq worker_catmullRomWeights_eq worker_getGridTemp_index_eq LAT_MAX_def
  by (intro ext) simp

lemma worker_offsets4x4_eq: "worker_offsets4x4 = offsets4x4"
  unfolding worker_offsets4x4_def offsets4x4_def by (rule refl)

lemma worker_bicubicSample_eq: "worker_bicubicSample = bicubicSample"
  unfolding worker_bicubicSample_def bicubicSample_def worker_consts_eq worker_stops_eq worker_COLORWAY_MAP_eq worker_rgbOf_eq worker_mixChannel_eq worker_mixStops_eq worker_tempToRGB_loop_eq worker_tempToRGB_eq worker_catmullRomWeights_eq worker_getGridTemp_index_eq worker_getGridTemp_eq worker_offsets4x4_eq LAT_MAX_def
  by (intro ext) simp

lemma worker_blurWindow_eq: "worker_blurWindow = blurWindow"
  unfolding worker_blurWindow_def blurWindow_def worker_consts_eq worker_stops_eq worker_COLORWAY_MAP_eq worker_rgbOf_eq worker_mixChannel_eq worker_mixStops_eq worker_tempToRGB_loop_eq worker_tempToRGB_eq worker_catmullRomWeights_eq worker_getGridTemp_index_eq worker_getGridTemp_eq worker_offsets4x4_eq worker_bicubicSample_eq LAT_MAX_def
  by (intro ext) simp

lemma worker_blurSlide_eq: "worker_blurSlide = blurSlide"
  unfolding worker_blurSlide_def blurSlide_def worker_consts_eq worker_stops_eq worker_COLORWAY_MAP_eq worker_rgbOf_eq worker_mixChannel_eq worker_mixStops_eq worker_tempToRGB_loop_eq worker_tempToRGB_eq worker_catmullRomWeights_eq worker_getGridTemp_index_eq worker_getGridTemp_eq worker_offsets4x4_eq worker_bicubicSample_eq worker_blurWindow_eq LAT_MAX_def
  by (intro ext) simp

lemma worker_blurAverage_eq: "worker_blurAverage = blurAverage"
  unfolding worker_blurAverage_def blurAverage_def worker_consts_eq worker_stops_eq worker_COLORWAY_MAP_eq worker_rgbOf_eq worker_mixChannel_eq worker_mixStops_eq worker_tempToRGB_loop_eq worker_tempToRGB_eq worker_catmullRomWeights_eq worker_getGridTemp_index_eq worker_getGridTemp_eq worker_offsets4x4_eq worker_bicubicSample_eq worker_blurWindow_eq worker_blurSlide_eq LAT_MAX_def
  by (intro ext) simp

lemma worker_blurRow_eq: "worker_blurRow = blurRow"
  unfolding worker_blurRow_def blurRow_def worker_consts_eq worker_stops_eq worker_COLORWAY_MAP_eq worker_rgbOf_eq worker_mixChannel_eq worker_mixStops_eq worker_tempToRGB_loop_eq worker_tempToRGB_eq worker_catmullRomWeights_eq worker_getGridTemp_index_eq worker_getGridTemp_eq worker_offsets4x4_eq worker_bicubicSample_eq worker_blurWindow_eq worker_blurSlide_eq worker_blurAverage_eq LAT_MAX_def
  by (intro ext) simp

lemma worker_blurCol_eq: "worker_blurCol = blurCol"
  unfolding worker_blurCol_def blurCol_def worker_consts_eq worker_stops_eq worker_COLORWAY_MAP_eq worker_rgbOf_eq worker_mixChannel_eq worker_mixStops_eq worker_tempToRGB_loop_eq worker_tempToRGB_eq worker_catmullRomWeights_eq worker_getGridTemp_index_eq worker_getGridTemp_eq worker_offsets4x4_eq worker_bicubicSample_eq worker_blurWindow_eq worker_blurSlide_eq worker_blurAverage_eq worker_blurRow_eq LAT_MAX_def
  by (intro ext) simp

lemma worker_blurPass_eq: "worker_blurPass = blurPass"
  unfolding worker_blurPass_def blurPass_def worker_consts_eq worker_stops_eq worker_COLORWAY_MAP_eq worker_rgbOf_eq worker_mixChannel_eq worker_mixStops_eq worker_tempToRGB_loop_eq worker_tempToRGB_eq worker_catmullRomWeights_eq worker_getGridTemp_index_eq worker_getGridTemp_eq worker_offsets4x4_eq worker_bicubicSample_eq worker_blurWindow_eq worker_blurSlide_eq worker_blurAverage_eq worker_blurRow_eq worker_blurCol_eq LAT_MAX_def
  by (intro ext) simp

lemma worker_boxBlur_eq: "worker_boxBlur = boxBlur"
  unfolding worker_boxBlur_def boxBlur_def worker_consts_eq worker_stops_eq worker_COLORWAY_MAP_eq worker_rgbOf_eq worker_mixChannel_eq worker_mixStops_eq worker_tempToRGB_loop_eq worker_tempToRGB_eq worker_catmullRomWeights_eq worker_getGridTemp_index_eq worker_getGridTemp_eq worker_offsets4x4_eq worker_bicubicSample_eq worker_blurWindow_eq worker_blurSlide_eq worker_blurAverage_eq worker_blurRow_eq worker_blurCol_eq worker_blurPass_eq LAT_MAX_def
  by (intro ext) simp

lemma worker_isOceanNearest_index_eq: "worker_isOceanNearest_index = isOceanNearest_index"
  unfolding worker_isOceanNearest_index_def isOceanNearest_index_def worker_consts_eq worker_stops_eq worker_COLORWAY_MAP_eq worker_rgbOf_eq worker_mixChannel_eq worker_mixStops_eq worker_tempToRGB_loop_eq worker_tempToRGB_eq worker_catmullRomWeights_eq worker_getGridTemp_index_eq worker_getGridTemp_eq worker_offsets4x4_eq worker_bicubicSample_eq worker_blurWindow_eq worker_blurSlide_eq worker_blurAverage_eq worker_blurRow_eq worker_blurCol_eq worker_blurPass_eq worker_boxBlur_eq LAT_MAX_def
  by (intro ext) simp

lemma worker_isOceanNearest_eq: "worker_isOceanNearest = isOceanNearest"
  unfolding worker_isOceanNearest_def isOceanNearest_def worker_consts_eq worker_stops_eq worker_COLORWAY_MAP_eq worker_rgbOf_eq worker_mixChannel_eq worker_mixStops_eq worker_tempToRGB_loop_eq worker_tempToRGB_eq worker_catmullRomWeights_eq worker_getGridTemp_index_eq worker_getGridTemp_eq worker_offsets4x4_eq worker_bicubicSample_eq worker_blurWindow_eq worker_blurSlide_eq worker_blurAverage_eq worker_blurRow_eq worker_blurCol_eq worker_blurPass_eq worker_boxBlur_eq worker_isOceanNearest_index_eq LAT_MAX_def
  by (intro ext) simp

lemma worker_pixelLat_eq: "worker_pixelLat = pixelLat"
  unfolding worker_pixelLat_def pixelLat_def worker_consts_eq worker_stops_eq worker_COLORWAY_MAP_eq worker_rgbOf_eq worker_mixChannel_eq worker_mixStops_eq worker_tempToRGB_loop_eq worker_tempToRGB_eq worker_catmullRomWeights_eq worker_getGridTemp_index_eq worker_getGridTemp_eq worker_offsets4x4_eq worker_bicubicSample_eq worker_blurWindow_eq worker_blurSlide_eq worker_blurAverage_eq worker_blurRow_eq worker_blurCol_eq worker_blurPass_eq worker_boxBlur_eq worker_isOceanNearest_index_eq worker_isOceanNearest_eq LAT_MAX_def
  by (intro ext) simp

lemma worker_pixelLng_eq: "worker_pixelLng = pixelLng"
  unfolding worker_pixelLng_def pixelLng_def worker_consts_eq worker_stops_eq worker_COLORWAY_MAP_eq worker_rgbOf_eq worker_mixChannel_eq worker_mixStops_eq worker_tempToRGB_loop_eq worker_tempToRGB_eq worker_catmullRomWeights_eq worker_getGridTemp_index_eq worker_getGridTemp_eq worker_offsets4x4_eq worker_bicubicSample_eq worker_blurWindow_eq worker_blurSlide_eq worker_blurAverage_eq worker_blurRow_eq worker_blurCol_eq worker_blurPass_eq worker_boxBlur_eq worker_isOceanNearest_index_eq worker_isOceanNearest_eq worker_pixelLat_eq LAT_MAX_def
  by (intro ext) simp

lemma worker_renderPixel_eq: "worker_renderPixel = renderPixel"
  unfolding worker_renderPixel_def renderPixel_def worker_consts_eq worker_stops_eq worker_COLORWAY_MAP_eq worker_rgbOf_eq worker_mixChannel_eq worker_mixStops_eq worker_tempToRGB_loop_eq worker_tempToRGB_eq worker_catmullRomWeights_eq worker_getGridTemp_index_eq worker_getGridTemp_eq worker_offsets4x4_eq worker_bicubicSample_eq worker_blurWindow_eq worker_blurSlide_eq worker_blurAverage_eq worker_blurRow_eq worker_blurCol_eq worker_blurPass_eq worker_boxBlur_eq worker_isOceanNearest_index_eq worker_isOceanNearest_eq worker_pixelLat_eq worker_pixelLng_eq LAT_MAX_def
  by (intro ext) simp

lemma worker_restamp_eq: "worker_restamp = restamp"
  unfolding worker_restamp_def restamp_def worker_consts_eq worker_stops_eq worker_COLORWAY_MAP_eq worker_rgbOf_eq worker_mixChannel_eq worker_mixStops_eq worker_tempToRGB_loop_eq worker_tempToRGB_eq worker_catmullRomWeights_eq worker_getGridTemp_index_eq worker_getGridTemp_eq worker_offsets4x4_eq worker_bicubicSample_eq worker_blurWindow_eq worker_blurSlide_eq worker_blurAverage_eq worker_blurRow_eq worker_blurCol_eq worker_blurPass_eq worker_boxBlur_eq worker_isOceanNearest_index_eq worker_isOceanNearest_eq worker_pixelLat_eq worker_pixelLng_eq worker_renderPixel_eq LAT_MAX_def
  by (intro ext) simp

lemma worker_scaledRadius_eq: "worker_scaledRadius = scaledRadius"
  unfolding worker_scaledRadius_def scaledRadius_def worker_consts_eq worker_stops_eq worker_COLORWAY_MAP_eq worker_rgbOf_eq worker_mixChannel_eq worker_mixStops_eq worker_tempToRGB_loop_eq worker_tempToRGB_eq worker_catmullRomWeights_eq worker_getGridTemp_index_eq worker_getGridTemp_eq worker_offsets4x4_eq worker_bicubicSample_eq worker_blurWindow_eq worker_blurSlide_eq worker_blurAverage_eq worker_blurRow_eq worker_blurCol_eq worker_blurPass_eq worker_boxBlur_eq worker_isOceanNearest_index_eq worker_isOceanNearest_eq worker_pixelLat_eq worker_pixelLng_eq worker_renderPixel_eq worker_restamp_eq LAT_MAX_def
  by (intro ext) simp

lemma worker_renderPixelData_eq:
  "worker_renderPixelData temps opts w h = renderPixelData temps opts (Some w) (Some h)"
  unfolding worker_renderPixelData_def renderPixelData_def worker_consts_eq worker_stops_eq worker_COLORWAY_MAP_eq worker_rgbOf_eq worker_mixChannel_eq worker_mixStops_eq worker_tempToRGB_loop_eq worker_tempToRGB_eq worker_catmullRomWeights_eq worker_getGridTemp_index_eq worker_getGridTemp_eq worker_offsets4x4_eq worker_bicubicSample_eq worker_blurWindow_eq worker_blurSlide_eq worker_blurAverage_eq worker_blurRow_eq worker_blurCol_eq worker_blurPass_eq worker_boxBlur_eq worker_isOceanNearest_index_eq worker_isOceanNearest_eq worker_pixelLat_eq worker_pixelLng_eq worker_renderPixel_eq worker_restamp_eq worker_scaledRadius_eq
  by simp


text \<open>
  Claim C9.  The worker's copy of the pipeline is the module's: for every grid, every
  options value and every explicit width and height the worker's \<open>renderPixelData\<close>
  returns the very byte list the module's returns (or throws as it does), and the two
  copies of \<open>tempToRGB\<close>, \<open>bicubicSample\<close> and \<open>boxBlur\<close>, of the four named stop tables
  and of the colorway map are equal.  Each arithmetic step of the model is rounded to a
  double, so equal means bit-identical.
\<close>

theorem worker_copy_identical:
  "worker_renderPixelData temps opts w h = renderPixelData temps opts (Some w) (Some h)
   \<and> worker_tempToRGB = tempToRGB
   \<and> worker_bicubicSample = bicubicSample
   \<and> worker_boxBlur = boxBlur
   \<and> worker_THERMAL_STOPS = THERMAL_STOPS
   \<and> worker_CLASSIC_STOPS = CLASSIC_STOPS
   \<and> worker_EARTH_STOPS = EARTH_STOPS
   \<and> worker_VIVID_STOPS = VIVID_STOPS
   \<and> worker_COLORWAY_MAP = COLORWAY_MAP"
  by (simp only: worker_renderPixelData_eq worker_tempToRGB_eq worker_bicubicSample_eq
      worker_boxBlur_eq worker_stops_eq worker_COLORWAY_MAP_eq simp_thms)

section \<open>Every grid read of the rasterizer is in bounds\<close>

lemma pixel_fraction:
  assumes "x < w"
  shows "0 \<le> fl (of_nat x / of_nat w) \<and> fl (of_nat x / of_nat w) \<le> 1"
proof (rule fl_between)
  show "(0::rat) \<le> of_nat x / of_nat w" by simp
  show "(of_nat x :: rat) / of_nat w \<le> 1" using assms by (simp add: divide_le_eq_1)
qed simp_all

lemma pixelLng_range:
  assumes "x < w"
  shows "\<exists>lo. pixelLng x w = Num lo \<and> - 180 \<le> lo \<and> lo \<le> 180"
proof -
  define q where "q = fl (of_nat x / of_nat w)"
  have q: "0 \<le> q" "q \<le> 1" using pixel_fraction[OF assms] unfolding q_def by simp_all
  have m: "0 \<le> fl (q * 360) \<and> fl (q * 360) \<le> 360"
    using q by (intro fl_between) simp_all
  have s: "- 180 \<le> fl (fl (q * 360) - 180) \<and> fl (fl (q * 360) - 180) \<le> 180"
    using m by (intro fl_between) simp_all
  have "pixelLng x w = Num (fl (fl (q * 360) - 180))"
    using assms unfolding pixelLng_def q_def by simp
  with s show ?thesis by blast
qed

lemma pixelLat_range:
  assumes "y < h"
  shows "\<exists>lt. pixelLat y h = Num lt \<and> - 90 \<le> lt \<and> lt \<le> 90"
proof -
  define q where "q = fl (of_nat y / of_nat h)"
  have q: "0 \<le> q" "q \<le> 1" using pixel_fraction[OF assms] unfolding q_def by simp_all
  have m: "0 \<le> fl (q * 180) \<and> fl (q * 180) \<le> 180"
    using q by (intro fl_between) simp_all
  have s: "- 90 \<le> fl (90 - fl (q * 180)) \<and> fl (90 - fl (q * 180)) \<le> 90"
    using m by (intro fl_between) simp_all
  have "pixelLat y h = Num (fl (90 - fl (q * 180)))"
    using assms unfolding pixelLat_def q_def by simp
  with s show ?thesis by blast
qed

lemma gLng_range:
  assumes "- 180 \<le> lo" "lo \<le> 180"
  shows "0 \<le> fl (fl (lo - of_int LNG_MIN) / of_int GRID_STEP)
       \<and> fl (fl (lo - of_int LNG_MIN) / of_int GRID_STEP) \<le> 180"
proof -
  have a: "0 \<le> fl (lo + 180) \<and> fl (lo + 180) \<le> 360"
    using assms by (intro fl_between) simp_all
  have "0 \<le> fl (fl (lo + 180) / 2) \<and> fl (fl (lo + 180) / 2) \<le> 180"
    using a by (intro fl_between) simp_all
  then show ?thesis by (simp add: LNG_MIN_def GRID_STEP_def)
qed

lemma isOceanNearest_index_range:
  assumes "- 180 \<le> lo" "lo \<le> 180"
  shows "0 \<le> isOceanNearest_index lt lo \<and> isOceanNearest_index lt lo < NUM_POINTS"
proof -
  define g where "g = fl (fl (lo - of_int LNG_MIN) / of_int GRID_STEP)"
  have g: "0 \<le> g" "g \<le> 180" using gLng_range[OF assms] unfolding g_def by simp_all
  define c where "c = Math_round g"
  have c: "0 \<le> c" "c \<le> 180"
    using g unfolding c_def Math_round_def by (simp_all add: le_floor_iff floor_le_iff)
  define r where "r = max 0 (min (NUM_LAT - 1) (Math_round (fl (fl (of_int LAT_MAX - lt) / of_int GRID_STEP))))"
  have r: "0 \<le> r" "r \<le> 90" unfolding r_def by (simp_all add: grid_consts)
  have i: "isOceanNearest_index lt lo = r * 181 + c"
    unfolding isOceanNearest_index_def Let_def g_def[symmetric] c_def[symmetric] r_def[symmetric]
    using c by (simp add: grid_consts)
  have "r * 181 \<le> 90 * 181" using r by (intro mult_right_mono) simp_all
  then show ?thesis using i r c by (simp add: grid_consts)
qed

lemma bicubic_index_range:
  assumes "- 180 \<le> lo" "lo \<le> 180" "dx \<in> {- 1, 0, 1, 2}"
  shows "0 \<le> getGridTemp_index latIdx (Math_floor (fl (fl (lo - of_int LNG_MIN) / of_int GRID_STEP)) + dx)
       \<and> getGridTemp_index latIdx (Math_floor (fl (fl (lo - of_int LNG_MIN) / of_int GRID_STEP)) + dx) < NUM_POINTS"
proof -
  define g where "g = fl (fl (lo - of_int LNG_MIN) / of_int GRID_STEP)"
  have g: "0 \<le> g" "g \<le> 180" using gLng_range[OF assms(1,2)] unfolding g_def by simp_all
  have b: "0 \<le> Math_floor g" "Math_floor g \<le> 180"
    using g unfolding Math_floor_def by (simp_all add: floor_le_iff)
  have "- NUM_LNG \<le> Math_floor g + dx" "Math_floor g + dx < 2 * NUM_LNG"
    using b assms(3) by (auto simp: grid_consts)
  then show ?thesis unfolding g_def[symmetric] by (intro conjI getGridTemp_index_range)
qed


text \<open>
  Claim C10.  For every pixel \<open>(x, y)\<close> of a \<open>w \<times> h\<close> frame (so \<open>w, h \<ge> 1\<close>) the pixel
  coordinates are finite, the index read by \<open>isOceanNearest\<close> and the sixteen indices read
  by \<open>bicubicSample\<close> through \<open>getGridTemp\<close> (at \<open>latBase + dy\<close>, \<open>lngBase + dx\<close>, offsets
  \<open>-1..2\<close>) lie in \<open>[0, NUM_POINTS)\<close>, and on a grid of exactly \<open>NUM_POINTS\<close> cells none of
  these reads is \<open>undefined\<close>.
\<close>

theorem render_reads_in_bounds:
  assumes "x < w" "y < h"
  shows "\<exists>lt lo. pixelLat y h = Num lt \<and> pixelLng x w = Num lo
     \<and> 0 \<le> isOceanNearest_index lt lo \<and> isOceanNearest_index lt lo < NUM_POINTS
     \<and> (\<forall>(dy, dx) \<in> set offsets4x4.
           0 \<le> getGridTemp_index (Math_floor (fl (fl (of_int LAT_MAX - lt) / of_int GRID_STEP)) + dy)
                                  (Math_floor (fl (fl (lo - of_int LNG_MIN) / of_int GRID_STEP)) + dx)
         \<and> getGridTemp_index (Math_floor (fl (fl (of_int LAT_MAX - lt) / of_int GRID_STEP)) + dy)
                              (Math_floor (fl (fl (lo - of_int LNG_MIN) / of_int GRID_STEP)) + dx)
             < NUM_POINTS)
     \<and> (int (length temps) = NUM_POINTS \<longrightarrow>
           rdGrid temps (isOceanNearest_index lt lo) \<noteq> None
         \<and> (\<forall>(dy, dx) \<in> set offsets4x4.
               getGridTemp temps (Math_floor (fl (fl (of_int LAT_MAX - lt) / of_int GRID_STEP)) + dy)
                                 (Math_floor (fl (fl (lo - of_int LNG_MIN) / of_int GRID_STEP)) + dx)
                 \<noteq> None))"
proof -
  obtain lt where lt: "pixelLat y h = Num lt" using pixelLat_range[OF assms(2)] by blast
  obtain lo where lo: "pixelLng x w = Num lo" "- 180 \<le> lo" "lo \<le> 180"
    using pixelLng_range[OF assms(1)] by blast
  note o = isOceanNearest_index_range[OF lo(2,3), of lt]
  have off: "dx \<in> {- 1, 0, 1, 2}" if "(dy, dx) \<in> set offsets4x4" for dy dx
    using that unfolding offsets4x4_def by auto
  have g: "0 \<le> getGridTemp_index r (Math_floor (fl (fl (lo - of_int LNG_MIN) / of_int GRID_STEP)) + dx)
         \<and> getGridTemp_index r (Math_floor (fl (fl (lo - of_int LNG_MIN) / of_int GRID_STEP)) + dx) < NUM_POINTS"
    if "(dy, dx) \<in> set offsets4x4" for r dy dx
    using bicubic_index_range[OF lo(2,3) off[OF that]] .
  have rd: "rdGrid temps i \<noteq> None" if "int (length temps) = NUM_POINTS" "0 \<le> i" "i < NUM_POINTS" for i
    using that by (simp add: rdGrid_def)
  have A: "\<forall>(dy, dx)\<in>set offsets4x4.
       0 \<le> getGridTemp_index (Math_floor (fl (fl (of_int LAT_MAX - lt) / of_int GRID_STEP)) + dy)
              (Math_floor (fl (fl (lo - of_int LNG_MIN) / of_int GRID_STEP)) + dx) \<and>
       getGridTemp_index (Math_floor (fl (fl (of_int LAT_MAX - lt) / of_int GRID_STEP)) + dy)
        (Math_floor (fl (fl (lo - of_int LNG_MIN) / of_int GRID_STEP)) + dx) < NUM_POINTS"
    using g by blast
  have B: "rdGrid temps (isOceanNearest_index lt lo) \<noteq> None"
    if "int (length temps) = NUM_POINTS"
    using rd[OF that] o by simp
  have C: "\<forall>(dy, dx)\<in>set offsets4x4.
       getGridTemp temps (Math_floor (fl (fl (of_int LAT_MAX - lt) / of_int GRID_STEP)) + dy)
        (Math_floor (fl (fl (lo - of_int LNG_MIN) / of_int GRID_STEP)) + dx) \<noteq> None"
    if "int (length temps) = NUM_POINTS"
    unfolding getGridTemp_def using rd[OF that] g by blast
  show ?thesis
    apply (rule exI[of _ lt])
    apply (rule exI[of _ lo])
    using lt lo(1) o A B C by blast
qed

text \<open>The theorem at the single pixel of a \<open>1 \<times> 1\<close> frame over a grid of zeros, offset
  \<open>(-1, -1)\<close>.\<close>

theorem render_reads_in_bounds_witness:
  "\<exists>lt lo. pixelLat 0 1 = Num lt \<and> pixelLng 0 1 = Num lo
     \<and> rdGrid (replicate 16471 (Num 0)) (isOceanNearest_index lt lo) = Some (Num 0)
     \<and> getGridTemp (replicate 16471 (Num 0))
          (Math_floor (fl (fl (of_int LAT_MAX - lt) / of_int GRID_STEP)) + (- 1))
          (Math_floor (fl (fl (lo - of_int LNG_MIN) / of_int GRID_STEP)) + (- 1)) = Some (Num 0)"
proof -
  have m: "(- 1, - 1) \<in> set offsets4x4" by (simp add: offsets4x4_def)
  have c: "c = Some (Num 0)" if "c \<noteq> None" "c = rdGrid (replicate 16471 (Num 0)) i" for c i
    using that by (auto simp: rdGrid_def split: if_splits)
  from render_reads_in_bounds[of 0 1 0 1 "replicate 16471 (Num 0)"]
  obtain lt lo where *: "pixelLat 0 1 = Num lt" "pixelLng 0 1 = Num lo"
    "rdGrid (replicate 16471 (Num 0)) (isOceanNearest_index lt lo) \<noteq> None"
    "\<forall>(dy, dx) \<in> set offsets4x4.
       getGridTemp (replicate 16471 (Num 0))
         (Math_floor (fl (fl (of_int LAT_MAX - lt) / of_int GRID_STEP)) + dy)
         (Math_floor (fl (fl (lo - of_int LNG_MIN) / of_int GRID_STEP)) + dx) \<noteq> None"
    by (auto simp: grid_consts)
  from *(4) m have "getGridTemp (replicate 16471 (Num 0))
         (Math_floor (fl (fl (of_int LAT_MAX - lt) / of_int GRID_STEP)) + (- 1))
         (Math_floor (fl (fl (lo - of_int LNG_MIN) / of_int GRID_STEP)) + (- 1)) \<noteq> None"
    by blast
  then have "getGridTemp (replicate 16471 (Num 0))
         (Math_floor (fl (fl (of_int LAT_MAX - lt) / of_int GRID_STEP)) + (- 1))
         (Math_floor (fl (fl (lo - of_int LNG_MIN) / of_int GRID_STEP)) + (- 1)) = Some (Num 0)"
    by (rule c) (simp add: getGridTemp_def)
  moreover have "rdGrid (replicate 16471 (Num 0)) (isOceanNearest_index lt lo) = Some (Num 0)"
    using *(3) by (rule c) simp
  ultimately show ?thesis using *(1,2) by blast
qed

section \<open>The rasterizer\<close>

lemma forM_append:
  "forM (xs @ ys) body s = (case forM xs body s of Inl e \<Rightarrow> Inl e | Inr s' \<Rightarrow> forM ys body s')"
  by (induction xs arbitrary: s) (auto split: sum.splits)

lemma forM_map: "forM (map g xs) body s = forM xs (\<lambda>i. body (g i)) s"
  by (induction xs arbitrary: s) (auto split: sum.splits)

lemma forM_cong:
  "(\<And>i. i \<in> set xs \<Longrightarrow> body i = body' i) \<Longrightarrow> forM xs body s = forM xs body' s"
  by (induction xs arbitrary: s) (auto split: sum.splits)

lemma forM_nested:
  "forM [0..<h] (\<lambda>y. forM [0..<w] (f y)) s = forM [0..<h * w] (\<lambda>k. f (k div w) (k mod w)) s"
proof (induction h arbitrary: s)
  case 0
  show ?case by simp
next
  case (Suc h)
  have split: "[0..<Suc h * w] = [0..<h * w] @ map (\<lambda>x. h * w + x) [0..<w]"
  proof -
    have "[0..<Suc h * w] = [0..<h * w + w]" by (simp add: add.commute)
    also have "\<dots> = [0..<h * w] @ [h * w..<h * w + w]" by (rule upt_add_eq_append) simp
    also have "[h * w..<h * w + w] = map (\<lambda>x. h * w + x) [0..<w]"
      by (simp add: map_add_upt add.commute)
    finally show ?thesis .
  qed
  have row: "forM (map (\<lambda>x. h * w + x) [0..<w]) (\<lambda>k. f (k div w) (k mod w)) t = forM [0..<w] (f h) t" for t
    unfolding forM_map by (rule forM_cong) simp
  show ?case
    unfolding split forM_append row upt_Suc_append[OF le0] Suc.IH[symmetric]
    by (simp split: sum.splits)
qed

lemma forM_each_prefix:
  assumes step: "\<And>i t t'. i \<in> set xs \<Longrightarrow> I t \<Longrightarrow> body i t = Inr t' \<Longrightarrow>
                   I t' \<and> Q i t' \<and> (\<forall>j \<in> set xs. j \<noteq> i \<longrightarrow> Q j t \<longrightarrow> Q j t')"
    and "distinct xs" "I s"
  shows "xs = ys @ zs \<Longrightarrow> forM ys body s = Inr t \<Longrightarrow> I t \<and> (\<forall>i \<in> set ys. Q i t)"
proof (induction ys arbitrary: zs t rule: rev_induct)
  case Nil
  then show ?case using assms(3) by simp
next
  case (snoc i ys)
  from snoc.prems(2) obtain u where u: "forM ys body s = Inr u" "body i u = Inr t"
    by (auto simp: forM_append split: sum.splits)
  have xs: "xs = ys @ (i # zs)" using snoc.prems(1) by simp
  note IH = snoc.IH[OF xs u(1)]
  have i: "i \<in> set xs" using xs by simp
  have ni: "i \<notin> set ys" using assms(2) xs by simp
  note st = step[OF i _ u(2)]
  show ?case
  proof (intro conjI ballI)
    show "I t" using st IH by simp
    fix j assume j: "j \<in> set (ys @ [i])"
    show "Q j t"
    proof (cases "j = i")
      case True
      then show ?thesis using st IH by simp
    next
      case False
      with j have jy: "j \<in> set ys" by simp
      then have "j \<in> set xs" using xs by simp
      with st IH jy False show ?thesis by blast
    qed
  qed
qed

lemma forM_each:
  assumes "forM xs body s = Inr t" "distinct xs" "I s"
    and "\<And>i t t'. i \<in> set xs \<Longrightarrow> I t \<Longrightarrow> body i t = Inr t' \<Longrightarrow>
           I t' \<and> Q i t' \<and> (\<forall>j \<in> set xs. j \<noteq> i \<longrightarrow> Q j t \<longrightarrow> Q j t')"
  shows "I t \<and> (\<forall>i \<in> set xs. Q i t)"
  using forM_each_prefix[of xs I body Q s xs "[]" t] assms by blast


lemma pixel_index_less: "x < w \<Longrightarrow> y < h \<Longrightarrow> y * w + x < h * (w::nat)"
proof -
  assume a: "x < w" "y < h"
  have "y * w + x < y * w + w" using a(1) by simp
  also have "\<dots> = Suc y * w" by simp
  also have "\<dots> \<le> h * w" using a(2) by (intro mult_le_mono1) simp
  finally show ?thesis .
qed

lemma toUint8Clamp_255 [simp]: "toUint8Clamp (Num 255) = 255"
  using roundHalfEven_of_int[of 255] by (simp add: toUint8Clamp_def)

lemma length_wrByte [simp]: "length (wrByte xs i v) = length xs"
  by (simp add: wrByte_def)

lemma nth_wrByte:
  "wrByte xs i v ! j = (if j = i \<and> i < length xs then toUint8Clamp v else xs ! j)"
  by (cases "i < length xs") (auto simp: wrByte_def nth_list_update list_update_beyond)

lemma renderPixel_step:
  assumes r: "renderPixel temps stops w h y x (d, m) = Inr (d', m')"
    and b: "x < w" "y < h" and len: "length d = w * h * 4" "length m = w * h"
  shows "length d' = w * h * 4 \<and> length m' = w * h
     \<and> m' ! (y * w + x) = (if isOceanNearest temps (pixelLat y h) (pixelLng x w) then 1 else 0)
     \<and> (isOceanNearest temps (pixelLat y h) (pixelLng x w) \<longrightarrow>
          (\<forall>j<4. d' ! ((y * w + x) * 4 + j) = 255))
     \<and> (\<not> isOceanNearest temps (pixelLat y h) (pixelLng x w) \<longrightarrow>
          (\<exists>r g b. tempToRGB (if bicubicSample temps (pixelLat y h) (pixelLng x w) = NaN then None
                               else Some (bicubicSample temps (pixelLat y h) (pixelLng x w))) stops
                     = Inr (r, g, b)
             \<and> d' ! ((y * w + x) * 4) = toUint8Clamp r
             \<and> d' ! ((y * w + x) * 4 + 1) = toUint8Clamp g
             \<and> d' ! ((y * w + x) * 4 + 2) = toUint8Clamp b
             \<and> d' ! ((y * w + x) * 4 + 3) = 255))
     \<and> (\<forall>k. k \<noteq> y * w + x \<longrightarrow> m' ! k = m ! k \<and> (\<forall>j<4. d' ! (k * 4 + j) = d ! (k * 4 + j)))"
proof -
  define k where "k = y * w + x"
  have k: "k < w * h" unfolding k_def using pixel_index_less[OF b] by (simp add: mult.commute)
  then have i: "k * 4 + 3 < length d" "k < length m" using len by simp_all
  have other: "k' * 4 + j \<noteq> k * 4 + j'" if "k' \<noteq> k" "j < 4" "j' < 4" for k' j j' :: nat
    using that by presburger
  show ?thesis
  proof (cases "isOceanNearest temps (pixelLat y h) (pixelLng x w)")
    case True
    with r have d': "d' = wrByte (wrByte (wrByte (wrByte d (k * 4) (Num 255)) (k * 4 + 1) (Num 255))
                        (k * 4 + 2) (Num 255)) (k * 4 + 3) (Num 255)"
      and m': "m' = m[k := 1]"
      unfolding renderPixel_def k_def by (simp_all add: Let_def)
    have 1: "\<forall>j<4. d' ! (k * 4 + j) = 255"
    proof (intro allI impI)
      fix j :: nat assume "j < 4"
      then consider "j = 0" | "j = 1" | "j = 2" | "j = 3" by linarith
      then show "d' ! (k * 4 + j) = 255"
        using i by cases (simp_all add: d' nth_wrByte)
    qed
    have 2: "\<forall>k'. k' \<noteq> k \<longrightarrow> m' ! k' = m ! k' \<and> (\<forall>j<4. d' ! (k' * 4 + j) = d ! (k' * 4 + j))"
      using other[of _ _ 0] other[of _ _ 1] other[of _ _ 2] other[of _ _ 3]
      by (simp add: d' m' nth_wrByte)
    show ?thesis using True 1 2 len i unfolding k_def[symmetric] by (simp add: d' m')
  next
    case False
    define temp where "temp = bicubicSample temps (pixelLat y h) (pixelLng x w)"
    from r False obtain cr cg cb where
      c: "tempToRGB (if temp = NaN then None else Some temp) stops = Inr (cr, cg, cb)"
      and d': "d' = wrByte (wrByte (wrByte (wrByte d (k * 4) cr) (k * 4 + 1) cg)
                        (k * 4 + 2) cb) (k * 4 + 3) (Num 255)"
      and m': "m' = m[k := 0]"
      unfolding renderPixel_def k_def temp_def by (auto simp: Let_def split: sum.splits)
    have 1: "d' ! (k * 4) = toUint8Clamp cr" "d' ! (k * 4 + 1) = toUint8Clamp cg"
      "d' ! (k * 4 + 2) = toUint8Clamp cb" "d' ! (k * 4 + 3) = 255"
      using i by (simp_all add: d' nth_wrByte)
    have 2: "\<forall>k'. k' \<noteq> k \<longrightarrow> m' ! k' = m ! k' \<and> (\<forall>j<4. d' ! (k' * 4 + j) = d ! (k' * 4 + j))"
      using other[of _ _ 0] other[of _ _ 1] other[of _ _ 2] other[of _ _ 3]
      by (simp add: d' m' nth_wrByte)
    show ?thesis using False c 1 2 len i unfolding k_def[symmetric] temp_def[symmetric]
      by (simp add: d' m')
  qed
qed


lemma raster_pixel:
  assumes run: "forM [0..<h] (\<lambda>y. forM [0..<w] (renderPixel temps stops w h y))
                  (replicate (w * h * 4) 0, replicate (w * h) 0) = Inr (d, m)"
    and b: "x < w" "y < h"
  shows "length d = w * h * 4 \<and> length m = w * h
     \<and> m ! (y * w + x) = (if isOceanNearest temps (pixelLat y h) (pixelLng x w) then 1 else 0)
     \<and> (isOceanNearest temps (pixelLat y h) (pixelLng x w) \<longrightarrow>
          (\<forall>j<4. d ! ((y * w + x) * 4 + j) = 255))
     \<and> (\<not> isOceanNearest temps (pixelLat y h) (pixelLng x w) \<longrightarrow>
          (\<exists>r g b. tempToRGB (if bicubicSample temps (pixelLat y h) (pixelLng x w) = NaN then None
                               else Some (bicubicSample temps (pixelLat y h) (pixelLng x w))) stops
                     = Inr (r, g, b)
             \<and> d ! ((y * w + x) * 4) = toUint8Clamp r
             \<and> d ! ((y * w + x) * 4 + 1) = toUint8Clamp g
             \<and> d ! ((y * w + x) * 4 + 2) = toUint8Clamp b
             \<and> d ! ((y * w + x) * 4 + 3) = 255))"
proof -
  define I where "I = (\<lambda>(d :: nat list, m :: nat list). length d = w * h * 4 \<and> length m = w * h)"
  define P where "P = (\<lambda>y x (d :: nat list, m :: nat list).
      m ! (y * w + x) = (if isOceanNearest temps (pixelLat y h) (pixelLng x w) then 1 else 0)
     \<and> (isOceanNearest temps (pixelLat y h) (pixelLng x w) \<longrightarrow>
          (\<forall>j<4. d ! ((y * w + x) * 4 + j) = 255))
     \<and> (\<not> isOceanNearest temps (pixelLat y h) (pixelLng x w) \<longrightarrow>
          (\<exists>r g b. tempToRGB (if bicubicSample temps (pixelLat y h) (pixelLng x w) = NaN then None
                               else Some (bicubicSample temps (pixelLat y h) (pixelLng x w))) stops
                     = Inr (r, g, b)
             \<and> d ! ((y * w + x) * 4) = toUint8Clamp r
             \<and> d ! ((y * w + x) * 4 + 1) = toUint8Clamp g
             \<and> d ! ((y * w + x) * 4 + 2) = toUint8Clamp b
             \<and> d ! ((y * w + x) * 4 + 3) = 255)))"
  define Q where "Q = (\<lambda>k. P (k div w) (k mod w))"
  have run': "forM [0..<h * w] (\<lambda>k. renderPixel temps stops w h (k div w) (k mod w))
                (replicate (w * h * 4) 0, replicate (w * h) 0) = Inr (d, m)"
    using run unfolding forM_nested .
  have step: "I t' \<and> Q i t' \<and> (\<forall>j \<in> set [0..<h * w]. j \<noteq> i \<longrightarrow> Q j t \<longrightarrow> Q j t')"
    if i: "i \<in> set [0..<h * w]" and It: "I t"
      and body: "renderPixel temps stops w h (i div w) (i mod w) t = Inr t'" for i t t'
  proof -
    obtain d0 m0 where t: "t = (d0, m0)" by (cases t)
    obtain d1 m1 where t': "t' = (d1, m1)" by (cases t')
    have il: "i < h * w" using i by simp
    then have w0: "0 < w" by (cases w) simp_all
    have xy: "i mod w < w" "i div w < h" "i div w * w + i mod w = i"
      using il w0 by (simp_all add: less_mult_imp_div_less)
    have len: "length d0 = w * h * 4" "length m0 = w * h" using It unfolding I_def t by simp_all
    note st = renderPixel_step[OF body[unfolded t t'] xy(1,2) len, unfolded xy(3)]
    have frm: "m1 ! k = m0 ! k" if "k \<noteq> i" for k
      using st that by blast
    have frd: "d1 ! (k * 4 + j) = d0 ! (k * 4 + j)" if "k \<noteq> i" "j < 4" for k j
      using st that by blast
    have pres: "Q j (d1, m1)" if "j \<noteq> i" "Q j (d0, m0)" for j
    proof -
      have e: "j div w * w + j mod w = j" by simp
      show ?thesis
        using that(2) frm[OF that(1)] frd[OF that(1), of 0] frd[OF that(1), of 1]
          frd[OF that(1), of 2] frd[OF that(1), of 3] frd[OF that(1)]
        unfolding Q_def P_def e by simp
    qed
    have "Q i (d1, m1)"
      using st unfolding Q_def P_def xy(3) by simp
    moreover have "I (d1, m1)" using st unfolding I_def by simp
    ultimately show ?thesis using pres unfolding t t' by blast
  qed
  have I0: "I (replicate (w * h * 4) 0, replicate (w * h) 0)" unfolding I_def by simp
  have res: "I (d, m) \<and> (\<forall>i \<in> set [0..<h * w]. Q i (d, m))"
    using run' distinct_upt I0 step by (rule forM_each)
  have k: "y * w + x < h * w" using b by (rule pixel_index_less)
  have "(y * w + x) div w = y" "(y * w + x) mod w = x" using b(1) by simp_all
  then have "P y x (d, m)" using res k unfolding Q_def by force
  then show ?thesis using res unfolding I_def P_def by simp
qed


lemma fold_preserves:
  assumes "Inv init" and "\<And>j acc. j \<in> set js \<Longrightarrow> Inv acc \<Longrightarrow> Inv (step j acc)"
  shows "Inv (fold step js init)"
  using assms by (induction js arbitrary: init) simp_all

lemma wrByte_keeps_alpha:
  assumes "ch < 3" "length d = n \<and> (\<forall>i. i mod 4 = 3 \<longrightarrow> d ! i = d0 ! i)"
  shows "length (wrByte d (p * 4 + ch) v) = n \<and> (\<forall>i. i mod 4 = 3 \<longrightarrow> wrByte d (p * 4 + ch) v ! i = d0 ! i)"
proof -
  have "(p * 4 + ch) mod 4 = ch" using assms(1) by simp
  then have "i \<noteq> p * 4 + ch" if "i mod 4 = 3" for i using that assms(1) by auto
  then show ?thesis using assms(2) by (simp add: nth_wrByte)
qed

lemma blurCol_keeps_alpha:
  assumes "ch < 3" "length d = n \<and> (\<forall>i. i mod 4 = 3 \<longrightarrow> d ! i = d0 ! i)"
  shows "length (blurCol dst w h radius x ch d) = n
       \<and> (\<forall>i. i mod 4 = 3 \<longrightarrow> blurCol dst w h radius x ch d ! i = d0 ! i)"
proof -
  define P where "P = (\<lambda>(d :: nat list, sc :: jsnum \<times> int). length d = n \<and> (\<forall>i. i mod 4 = 3 \<longrightarrow> d ! i = d0 ! i))"
  have "P (fold (\<lambda>y (data, sc).
            (wrByte data ((y * w + x) * 4 + ch) (blurAverage sc),
             blurSlide dst (\<lambda>y. (y * w + x) * 4 + ch) radius h y sc))
          [0..<h] (d, blurWindow dst (\<lambda>y. (y * w + x) * 4 + ch) radius h))"
  proof (rule fold_preserves)
    show "P (d, blurWindow dst (\<lambda>y. (y * w + x) * 4 + ch) radius h)"
      unfolding P_def using assms(2) by simp
    fix y s assume Ps: "P s"
    obtain a sc where s: "s = (a, sc)" by (cases s)
    show "P ((\<lambda>(data, sc).
            (wrByte data ((y * w + x) * 4 + ch) (blurAverage sc),
             blurSlide dst (\<lambda>y. (y * w + x) * 4 + ch) radius h y sc)) s)"
      using Ps wrByte_keeps_alpha[OF assms(1), of a n d0 "y * w + x" "blurAverage sc"]
      unfolding P_def s by simp
  qed
  then show ?thesis unfolding blurCol_def P_def by (simp add: case_prod_beta)
qed

lemma blurPass_keeps_alpha:
  assumes "length d = n \<and> (\<forall>i. i mod 4 = 3 \<longrightarrow> d ! i = d0 ! i)"
  shows "length (fst (blurPass w h radius (d, dst))) = n
       \<and> (\<forall>i. i mod 4 = 3 \<longrightarrow> fst (blurPass w h radius (d, dst)) ! i = d0 ! i)"
proof -
  define P where "P = (\<lambda>d :: nat list. length d = n \<and> (\<forall>i. i mod 4 = 3 \<longrightarrow> d ! i = d0 ! i))"
  have "P (fold (\<lambda>x data. fold (\<lambda>ch data. blurCol dst' w h radius x ch data) [0..<3] data) [0..<w] d)"
    for dst'
  proof (rule fold_preserves)
    show "P d" unfolding P_def using assms by simp
    fix x s assume "P s"
    then show "P (fold (\<lambda>ch data. blurCol dst' w h radius x ch data) [0..<3] s)"
    proof (rule fold_preserves)
      fix ch :: nat and t assume "ch \<in> set [0..<3]" "P t"
      then show "P (blurCol dst' w h radius x ch t)"
        unfolding P_def using blurCol_keeps_alpha[of ch t n d0] by simp
    qed
  qed
  then show ?thesis unfolding blurPass_def P_def by (simp add: Let_def)
qed

lemma boxBlur_keeps_alpha:
  "length (boxBlur d w h radius passes) = length d
   \<and> (\<forall>i. i mod 4 = 3 \<longrightarrow> boxBlur d w h radius passes ! i = d ! i)"
proof -
  define P where "P = (\<lambda>(d' :: nat list, dst :: nat list). length d' = length d \<and> (\<forall>i. i mod 4 = 3 \<longrightarrow> d' ! i = d ! i))"
  have "P (fold (\<lambda>pass dd. blurPass w h radius dd) [0..<passes] (d, replicate (length d) 0))"
  proof (rule fold_preserves)
    show "P (d, replicate (length d) 0)" unfolding P_def by simp
    fix pass s assume "P s"
    then show "P (blurPass w h radius s)"
      unfolding P_def using blurPass_keeps_alpha[of "fst s" "length d" d w h radius "snd s"]
      by (cases s, cases "blurPass w h radius s") simp
  qed
  then show ?thesis unfolding boxBlur_def P_def by (simp add: case_prod_beta)
qed

lemma byte_index_eq:
  "j < 4 \<Longrightarrow> c < 4 \<Longrightarrow> (i * 4 + j = n * 4 + c) = (i = n \<and> j = (c::nat))"
  by presburger

lemma restamp_prefix:
  assumes "length data = length msk * 4"
  shows "n \<le> length msk \<Longrightarrow>
     length (fold (\<lambda>i data. if msk ! i \<noteq> 0
                     then wrByte (wrByte (wrByte data (i * 4) (Num 255)) (i * 4 + 1) (Num 255))
                            (i * 4 + 2) (Num 255)
                     else data) [0..<n] data) = length data
   \<and> (\<forall>i<length msk. \<forall>j<4.
        fold (\<lambda>i data. if msk ! i \<noteq> 0
                     then wrByte (wrByte (wrByte data (i * 4) (Num 255)) (i * 4 + 1) (Num 255))
                            (i * 4 + 2) (Num 255)
                     else data) [0..<n] data ! (i * 4 + j)
        = (if i < n \<and> msk ! i \<noteq> 0 \<and> j < 3 then 255 else data ! (i * 4 + j)))"
proof (induction n)
  case 0
  show ?case by simp
next
  case (Suc n)
  define d' where "d' = fold (\<lambda>i data. if msk ! i \<noteq> 0
                     then wrByte (wrByte (wrByte data (i * 4) (Num 255)) (i * 4 + 1) (Num 255))
                            (i * 4 + 2) (Num 255)
                     else data) [0..<n] data"
  have IH: "length d' = length data"
    "\<And>i j. i < length msk \<Longrightarrow> j < 4 \<Longrightarrow>
        d' ! (i * 4 + j) = (if i < n \<and> msk ! i \<noteq> 0 \<and> j < 3 then 255 else data ! (i * 4 + j))"
    using Suc unfolding d'_def by simp_all
  have n: "n < length msk" using Suc.prems by simp
  then have inb: "n * 4 + 2 < length d'" using IH(1) assms by simp
  have e: "(i * 4 + j = n * 4) = (i = n \<and> j = 0)" "(i * 4 + j = n * 4 + 1) = (i = n \<and> j = 1)"
    "(i * 4 + j = n * 4 + 2) = (i = n \<and> j = 2)" if "j < 4" for i j
    using byte_index_eq[of j 0 i n] byte_index_eq[of j 1 i n] byte_index_eq[of j 2 i n] that
    by simp_all
  show ?case
    unfolding upt_Suc_append[OF le0] fold_append comp_def d'_def[symmetric]
    using IH inb e by (auto simp: nth_wrByte less_Suc_eq)
qed

lemma restamp_spec:
  assumes "length data = length msk * 4"
  shows "length (restamp data msk) = length data
   \<and> (\<forall>i<length msk. \<forall>j<4. restamp data msk ! (i * 4 + j)
        = (if msk ! i \<noteq> 0 \<and> j < 3 then 255 else data ! (i * 4 + j)))"
  using restamp_prefix[OF assms, of "length msk"] unfolding restamp_def by simp


lemma forM_total:
  assumes "\<And>i s. i \<in> set xs \<Longrightarrow> \<exists>s'. body i s = Inr s'"
  shows "\<exists>s'. forM xs body s = Inr s'"
  using assms
proof (induction xs arbitrary: s)
  case Nil
  show ?case by simp
next
  case (Cons i xs)
  obtain s1 where s1: "body i s = Inr s1" using Cons.prems[of i s] by auto
  obtain s2 where "forM xs body s1 = Inr s2" using Cons.IH[of s1] Cons.prems by auto
  with s1 show ?case by simp
qed

lemma tempToRGB_total:
  assumes "stops = Some (s # ss)"
  shows "\<exists>c. tempToRGB t stops = Inr c"
proof -
  have "tempToRGB t stops \<noteq> Inl e" for e
    using assms by (cases t) (simp_all add: tempToRGB_def split: jsnum.splits)
  then show ?thesis by (cases "tempToRGB t stops") blast+
qed

lemma renderPixel_total:
  assumes "stops = Some (s # ss)"
  shows "\<exists>dm'. renderPixel temps stops w h y x dm = Inr dm'"
proof -
  obtain d m where dm: "dm = (d, m)" by (cases dm)
  obtain c where "tempToRGB (if bicubicSample temps (pixelLat y h) (pixelLng x w) = NaN then None
                   else Some (bicubicSample temps (pixelLat y h) (pixelLng x w))) stops = Inr c"
    using tempToRGB_total[OF assms] by blast
  then show ?thesis unfolding renderPixel_def dm by (cases c) (simp add: Let_def)
qed

lemma renderPixelData_total:
  assumes "customStops opts = Some (s # ss)
         \<or> customStops opts = None \<and> colorway opts \<in> {''thermal'', ''classic'', ''earth'', ''vivid''}"
  shows "\<exists>frame. renderPixelData temps opts wo ho = Inr frame"
proof -
  define stops where "stops = (case customStops opts of Some cs \<Rightarrow> Some cs | None \<Rightarrow> COLORWAY_MAP (colorway opts))"
  obtain s' ss' where st: "stops = Some (s' # ss')"
    using assms unfolding stops_def COLORWAY_MAP_def THERMAL_STOPS_def CLASSIC_STOPS_def
      EARTH_STOPS_def VIVID_STOPS_def by auto
  define w where "w = (case wo of None \<Rightarrow> RENDER_WIDTH | Some w \<Rightarrow> w)"
  define h where "h = (case ho of None \<Rightarrow> RENDER_HEIGHT | Some h \<Rightarrow> h)"
  have "\<exists>dm'. forM [0..<h] (\<lambda>y. forM [0..<w] (renderPixel temps stops w h y)) dm = Inr dm'" for dm
    by (intro forM_total renderPixel_total[OF st])
  then obtain d m where "forM [0..<h] (\<lambda>y. forM [0..<w] (renderPixel temps stops w h y))
      (replicate (w * h * 4) 0, replicate (w * h) 0) = Inr (d, m)"
    by (metis surj_pair)
  then show ?thesis
    unfolding renderPixelData_def Let_def stops_def[symmetric] w_def[symmetric] h_def[symmetric]
    by simp
qed

text \<open>
  Claim C1.  Whenever \<open>renderPixelData\<close> returns a frame for a grid, options and a size
  \<open>w \<times> h\<close>, every pixel \<open>(x, y)\<close> for which \<open>isOceanNearest\<close> finds the missing-data
  sentinel in the nearest grid cell is opaque white in that frame: its four bytes are
  255.  The options are arbitrary, so this holds for every \<open>blurRadius\<close>: without a blur,
  and after the three blur passes and the re-stamp.  It holds for every grid, those of
  \<open>NUM_POINTS\<close> cells among them.
\<close>

theorem ocean_pixels_white:
  assumes "renderPixelData temps opts (Some w) (Some h) = Inr frame"
    and "x < w" "y < h"
    and "isOceanNearest temps (pixelLat y h) (pixelLng x w)"
  shows "frame ! ((y * w + x) * 4) = 255 \<and> frame ! ((y * w + x) * 4 + 1) = 255
       \<and> frame ! ((y * w + x) * 4 + 2) = 255 \<and> frame ! ((y * w + x) * 4 + 3) = 255"
proof -
  define stops where "stops = (case customStops opts of Some cs \<Rightarrow> Some cs | None \<Rightarrow> COLORWAY_MAP (colorway opts))"
  define k where "k = y * w + x"
  have eq: "renderPixelData temps opts (Some w) (Some h) =
      (case forM [0..<h] (\<lambda>y. forM [0..<w] (renderPixel temps stops w h y))
                (replicate (w * h * 4) 0, replicate (w * h) 0) of
           Inl e \<Rightarrow> Inl e
         | Inr (data, oceanMask) \<Rightarrow>
             Inr (case blurRadius opts of
                    Num b \<Rightarrow> if 0 < b then restamp (boxBlur data w h (scaledRadius b w) 3) oceanMask
                              else data
                  | NaN \<Rightarrow> data))"
    unfolding renderPixelData_def stops_def by (simp add: Let_def)
  obtain d m where
    run: "forM [0..<h] (\<lambda>y. forM [0..<w] (renderPixel temps stops w h y))
            (replicate (w * h * 4) 0, replicate (w * h) 0) = Inr (d, m)"
    and fr: "frame = (case blurRadius opts of
                    Num b \<Rightarrow> if 0 < b then restamp (boxBlur d w h (scaledRadius b w) 3) m else d
                  | NaN \<Rightarrow> d)"
  proof (cases "forM [0..<h] (\<lambda>y. forM [0..<w] (renderPixel temps stops w h y))
                (replicate (w * h * 4) 0, replicate (w * h) 0)")
    case (Inl e)
    with assms(1) eq show ?thesis by simp
  next
    case (Inr dm)
    obtain d m where "dm = (d, m)" by (cases dm)
    with Inr assms(1) eq that show ?thesis by simp
  qed
  note px = raster_pixel[OF run assms(2,3)]
  have len: "length d = w * h * 4" "length m = w * h" using px by simp_all
  have mk: "m ! k = 1" using px assms(4) unfolding k_def by simp
  have dk: "d ! (k * 4 + j) = 255" if "j < 4" for j using px assms(4) that unfolding k_def by simp
  have kl: "k < length m" unfolding k_def len using pixel_index_less[OF assms(2,3)] by (simp add: mult.commute)
  have plain: "d ! (k * 4) = 255 \<and> d ! (k * 4 + 1) = 255 \<and> d ! (k * 4 + 2) = 255 \<and> d ! (k * 4 + 3) = 255"
    using dk[of 0] dk[of 1] dk[of 2] dk[of 3] by simp
  have blurred: "restamp (boxBlur d w h r 3) m ! (k * 4) = 255
       \<and> restamp (boxBlur d w h r 3) m ! (k * 4 + 1) = 255
       \<and> restamp (boxBlur d w h r 3) m ! (k * 4 + 2) = 255
       \<and> restamp (boxBlur d w h r 3) m ! (k * 4 + 3) = 255" for r
  proof -
    note bb = boxBlur_keeps_alpha[of d w h r 3]
    have "length (boxBlur d w h r 3) = length m * 4" using bb len by simp
    note rs = restamp_spec[OF this]
    have a: "boxBlur d w h r 3 ! (k * 4 + 3) = 255" using bb dk[of 3] by simp
    have r: "restamp (boxBlur d w h r 3) m ! (k * 4 + j)
               = (if m ! k \<noteq> 0 \<and> j < 3 then 255 else boxBlur d w h r 3 ! (k * 4 + j))"
      if "j < 4" for j
      using rs kl that by blast
    show ?thesis using r[of 0] r[of 1] r[of 2] r[of 3] mk a by simp
  qed
  show ?thesis
    unfolding fr k_def[symmetric] using plain blurred by (cases "blurRadius opts") simp_all
qed


text \<open>The theorem on an all-ocean grid, blur radius 4, at the pixel of a \<open>1 \<times> 1\<close> frame.\<close>

theorem ocean_pixels_white_witness:
  "isOceanNearest (replicate 16471 NaN) (pixelLat 0 1) (pixelLng 0 1)
   \<and> projr (renderPixelData (replicate 16471 NaN)
        \<lparr>customStops = None, colorway = ''thermal'', blurRadius = Num 4\<rparr> (Some 1) (Some 1)) ! 0 = 255
   \<and> projr (renderPixelData (replicate 16471 NaN)
        \<lparr>customStops = None, colorway = ''thermal'', blurRadius = Num 4\<rparr> (Some 1) (Some 1)) ! 1 = 255
   \<and> projr (renderPixelData (replicate 16471 NaN)
        \<lparr>customStops = None, colorway = ''thermal'', blurRadius = Num 4\<rparr> (Some 1) (Some 1)) ! 2 = 255
   \<and> projr (renderPixelData (replicate 16471 NaN)
        \<lparr>customStops = None, colorway = ''thermal'', blurRadius = Num 4\<rparr> (Some 1) (Some 1)) ! 3 = 255"
proof -
  define T where "T = replicate 16471 NaN"
  define Op where "Op = \<lparr>customStops = None, colorway = ''thermal'', blurRadius = Num 4\<rparr>"
  have "\<exists>frame. renderPixelData T Op (Some 1) (Some 1) = Inr frame"
    by (rule renderPixelData_total) (simp add: Op_def)
  then have r: "renderPixelData T Op (Some 1) (Some 1) = Inr (projr (renderPixelData T Op (Some 1) (Some 1)))"
    by auto
  have oc: "isOceanNearest T (pixelLat 0 1) (pixelLng 0 1)"
    by (simp add: isOceanNearest_def pixelLat_def pixelLng_def isOceanNearest_index_def rdGrid_def
        grid_consts LAT_MAX_def LNG_MIN_def GRID_STEP_def Math_round_def T_def)
  show ?thesis
    using ocean_pixels_white[OF r _ _ oc] oc unfolding T_def Op_def by (simp add: numeral_2_eq_2)
qed

section \<open>The atlas job\<close>

lemma worker_renderPixelData_total:
  assumes "customStops opts = Some (s # ss)
         \<or> customStops opts = None \<and> colorway opts \<in> {''thermal'', ''classic'', ''earth'', ''vivid''}"
  shows "worker_renderPixelData temps opts w h = Inr (projr (worker_renderPixelData temps opts w h))"
  using renderPixelData_total[OF assms, of temps "Some w" "Some h"]
  unfolding worker_renderPixelData_eq by auto

lemma atlas_consts: "ATLAS_COLS = 16" "FRAME_W = 512" "FRAME_H = 256" "atlasW = 16 * 512"
  by (simp_all add: ATLAS_COLS_def FRAME_W_def FRAME_H_def atlasW_def)

lemma atlasRows_ceiling:
  assumes "1 \<le> numDays"
  shows "16 * (atlasRows numDays - 1) < numDays \<and> numDays \<le> 16 * atlasRows numDays
       \<and> 1 \<le> atlasRows numDays"
proof -
  define r where "r = \<lceil>(of_nat numDays :: rat) / 16\<rceil>"
  have c: "of_int r - 1 < (of_nat numDays :: rat) / 16" "(of_nat numDays :: rat) / 16 \<le> of_int r"
    unfolding r_def by linarith+
  have "(0::rat) < of_nat numDays / 16" using assms by simp
  with c(2) have "(0::rat) < of_int r" by linarith
  then have r1: "1 \<le> r" by simp
  have "(of_int (16 * (r - 1)) :: rat) < of_int (int numDays)" using c(1) by simp
  then have lo: "16 * (r - 1) < int numDays" by (simp only: of_int_less_iff)
  have "(of_int (int numDays) :: rat) \<le> of_int (16 * r)" using c(2) by simp
  then have hi: "int numDays \<le> 16 * r" by (simp only: of_int_le_iff)
  have ar: "atlasRows numDays = nat r" unfolding atlasRows_def r_def by (simp add: atlas_consts)
  show ?thesis unfolding ar using lo hi r1 by (simp add: nat_le_iff) linarith
qed

lemma ceilLog2_least:
  assumes "1 \<le> n"
  shows "n \<le> 2 ^ ceilLog2 n \<and> (\<forall>e. n \<le> 2 ^ e \<longrightarrow> ceilLog2 n \<le> e)"
proof (cases "n = 1")
  case True
  have "bitLength 0 = 0" by (subst bitLength.simps) simp
  then show ?thesis using True by (simp add: ceilLog2_def)
next
  case False
  define a where "a = int n - 1"
  have a0: "0 < a" using assms False unfolding a_def by simp
  define bl where "bl = bitLength a"
  have bl1: "1 \<le> bl" unfolding bl_def using a0 by (rule bitLength_pos)
  note b = bitLength_bounds[OF a0, folded bl_def]
  have c: "ceilLog2 n = nat bl" unfolding ceilLog2_def bl_def a_def by simp
  have "int n \<le> 2 ^ nat bl" using b unfolding a_def by linarith
  then have "int n \<le> int (2 ^ nat bl)" by simp
  then have up: "n \<le> 2 ^ nat bl" by (simp only: of_nat_le_iff)
  have least: "nat bl \<le> e" if "n \<le> 2 ^ e" for e
  proof -
    have i: "int n \<le> int (2 ^ e)" using that by (simp only: of_nat_le_iff)
    have "int (2 ^ e) = 2 ^ e" by simp
    with i have "a < 2 ^ e" unfolding a_def by linarith
    with b have "(2::int) ^ nat (bl - 1) < 2 ^ e" by linarith
    then have "nat (bl - 1) < e" by simp
    then show ?thesis using bl1 by linarith
  qed
  show ?thesis unfolding c using up least by blast
qed

lemma atlasH_power:
  assumes "1 \<le> numDays"
  shows "rawH numDays \<le> atlasH numDays \<and> (\<exists>e. atlasH numDays = 2 ^ e)
       \<and> (\<forall>e. rawH numDays \<le> 2 ^ e \<longrightarrow> atlasH numDays \<le> 2 ^ e)"
proof -
  have r1: "1 \<le> rawH numDays"
    using atlasRows_ceiling[OF assms] unfolding rawH_def atlas_consts by simp
  then have h: "atlasH numDays = 2 ^ ceilLog2 (rawH numDays)" unfolding atlasH_def by simp
  note l = ceilLog2_least[OF r1]
  have "atlasH numDays \<le> 2 ^ e" if "rawH numDays \<le> 2 ^ e" for e
    unfolding h using l that by (intro power_increasing) simp_all
  then show ?thesis using l h
    by (intro conjI exI[of _ "ceilLog2 (rawH numDays)"] allI impI) simp_all
qed

lemma atlas_17: "atlasRows 17 = 2" "atlasH 17 = 512"
proof -
  have "\<lceil>(17::rat) / 16\<rceil> = 2" by (rule ceiling_unique) simp_all
  then show r: "atlasRows 17 = 2"
    unfolding atlasRows_def atlas_consts by simp
  have "bitLength 511 = 9" by code_simp
  then show "atlasH 17 = 512"
    unfolding atlasH_def rawH_def r atlas_consts ceilLog2_def by simp
qed


lemma run_Nil: "run [] w = w"
  and run_Cons: "run (e # evs) w = run evs (dispatch e w)"
  and run_append: "run (xs @ ys) w = run ys (run xs w)"
  and run_snoc: "run (xs @ [e]) w = dispatch e (run xs w)"
  by (simp_all add: run_def)

text \<open>Days after which the job does not wait are run through in one go.\<close>

lemma renderAtlas_days_append:
  assumes "\<forall>d \<in> set xs. d mod 5 \<noteq> 0"
    and "\<forall>d \<in> set xs. \<exists>px. worker_renderPixelData
            (take (nat worker_NUM_POINTS) (drop (d * nat worker_NUM_POINTS) (job_temps j)))
            (job_opts j) FRAME_W FRAME_H = Inr px"
  shows "renderAtlas_days False (xs @ rest) j =
     (case renderAtlas_days False rest
        (j\<lparr>job_atlas := (job_atlas j)\<lparr>cv_images := cv_images (job_atlas j) @
            map (\<lambda>d. (d mod ATLAS_COLS * FRAME_W, d div ATLAS_COLS * FRAME_H,
                      projr (worker_renderPixelData
                        (take (nat worker_NUM_POINTS) (drop (d * nat worker_NUM_POINTS) (job_temps j)))
                        (job_opts j) FRAME_W FRAME_H))) xs\<rparr>\<rparr>) of
        (j2, ms) \<Rightarrow> (j2, map (\<lambda>d. Progress (d + 1) (job_numDays j)) xs @ ms))"
  using assms
proof (induction xs arbitrary: j)
  case Nil
  show ?case by simp
next
  case (Cons d xs)
  from Cons.prems(2) obtain px where px: "worker_renderPixelData
            (take (nat worker_NUM_POINTS) (drop (d * nat worker_NUM_POINTS) (job_temps j)))
            (job_opts j) FRAME_W FRAME_H = Inr px" by auto
  define j1 where "j1 = j\<lparr>job_atlas := (job_atlas j)\<lparr>cv_images :=
        cv_images (job_atlas j) @ [(d mod ATLAS_COLS * FRAME_W, d div ATLAS_COLS * FRAME_H, px)]\<rparr>\<rparr>"
  have f: "job_temps j1 = job_temps j" "job_opts j1 = job_opts j" "job_numDays j1 = job_numDays j"
    by (simp_all add: j1_def)
  have ih: "renderAtlas_days False (xs @ rest) j1 =
     (case renderAtlas_days False rest
        (j1\<lparr>job_atlas := (job_atlas j1)\<lparr>cv_images := cv_images (job_atlas j1) @
            map (\<lambda>d. (d mod ATLAS_COLS * FRAME_W, d div ATLAS_COLS * FRAME_H,
                      projr (worker_renderPixelData
                        (take (nat worker_NUM_POINTS) (drop (d * nat worker_NUM_POINTS) (job_temps j1)))
                        (job_opts j1) FRAME_W FRAME_H))) xs\<rparr>\<rparr>) of
        (j2, ms) \<Rightarrow> (j2, map (\<lambda>d. Progress (d + 1) (job_numDays j1)) xs @ ms))"
    using Cons.prems by (intro Cons.IH) (simp_all add: f)
  have d: "d mod 5 \<noteq> 0" using Cons.prems(1) by simp
  show ?case
    using d by (simp add: px Let_def j1_def[symmetric] ih f) (simp add: j1_def split: prod.splits)
qed


lemma renderAtlas_days_first:
  assumes "0 < n \<longrightarrow> (\<exists>px. worker_renderPixelData
            (take (nat worker_NUM_POINTS) (drop (0 * nat worker_NUM_POINTS) (job_temps j)))
            (job_opts j) FRAME_W FRAME_H = Inr px)"
  shows "renderAtlas_days False [0..<n] j =
     (if 0 < n
      then (j\<lparr>job_atlas := (job_atlas j)\<lparr>cv_images := cv_images (job_atlas j) @
                 [(0 mod ATLAS_COLS * FRAME_W, 0 div ATLAS_COLS * FRAME_H,
                   projr (worker_renderPixelData
                     (take (nat worker_NUM_POINTS) (drop (0 * nat worker_NUM_POINTS) (job_temps j)))
                     (job_opts j) FRAME_W FRAME_H))]\<rparr>,
              job_phase := Waiting 1\<rparr>, [Progress 1 (job_numDays j)])
      else (j\<lparr>job_phase := Encoding\<rparr>, []))"
proof (cases "0 < n")
  case True
  then have u: "[0..<n] = 0 # [1..<n]" by (simp add: upt_rec)
  from True assms obtain px where "worker_renderPixelData
            (take (nat worker_NUM_POINTS) (drop (0 * nat worker_NUM_POINTS) (job_temps j)))
            (job_opts j) FRAME_W FRAME_H = Inr px" by blast
  then show ?thesis using True unfolding u by (simp add: Let_def)
next
  case False
  then show ?thesis by simp
qed

lemma renderAtlas_days_from:
  assumes k: "k mod 5 = 1"
    and ok: "\<forall>d. k \<le> d \<and> d < min (k + 5) n \<longrightarrow> (\<exists>px. worker_renderPixelData
            (take (nat worker_NUM_POINTS) (drop (d * nat worker_NUM_POINTS) (job_temps j)))
            (job_opts j) FRAME_W FRAME_H = Inr px)"
  shows "renderAtlas_days False [k..<n] j =
     (j\<lparr>job_atlas := (job_atlas j)\<lparr>cv_images := cv_images (job_atlas j) @
            map (\<lambda>d. (d mod ATLAS_COLS * FRAME_W, d div ATLAS_COLS * FRAME_H,
                      projr (worker_renderPixelData
                        (take (nat worker_NUM_POINTS) (drop (d * nat worker_NUM_POINTS) (job_temps j)))
                        (job_opts j) FRAME_W FRAME_H))) [k..<min (k + 5) n]\<rparr>,
         job_phase := (if k + 5 \<le> n then Waiting (k + 5) else Encoding)\<rparr>,
      map (\<lambda>d. Progress (d + 1) (job_numDays j)) [k..<min (k + 5) n])"
proof (cases "k + 5 \<le> n")
  case True
  have u: "[k..<n] = [k..<k + 4] @ (k + 4) # [k + 5..<n]"
  proof -
    from True obtain m where n: "n = k + 4 + m" using le_Suc_ex[of "k + 4" n] by auto
    have "[k..<n] = [k..<k + 4] @ [k + 4..<n]"
      unfolding n by (rule upt_add_eq_append) simp
    moreover have "[k + 4..<n] = (k + 4) # [k + 5..<n]" using True by (simp add: upt_rec)
    ultimately show ?thesis by simp
  qed
  have "[k..<Suc (k + 4)] = [k..<k + 4] @ [k + 4]" by (rule upt_Suc_append) simp
  moreover have "k + 5 = Suc (k + 4)" by simp
  ultimately have v: "[k..<k + 5] = [k..<k + 4] @ [k + 4]" by (simp only:)
  have m: "\<forall>d \<in> set [k..<k + 4]. d mod 5 \<noteq> 0" using k by auto presburger
  have m4: "(k + 4) mod 5 = 0" using k by presburger
  have o1: "\<forall>d \<in> set [k..<k + 4]. \<exists>px. worker_renderPixelData
            (take (nat worker_NUM_POINTS) (drop (d * nat worker_NUM_POINTS) (job_temps j)))
            (job_opts j) FRAME_W FRAME_H = Inr px"
    using ok True by auto
  obtain px where px: "worker_renderPixelData
            (take (nat worker_NUM_POINTS) (drop ((k + 4) * nat worker_NUM_POINTS) (job_temps j)))
            (job_opts j) FRAME_W FRAME_H = Inr px"
    using ok[rule_format, of "k + 4"] True by (auto simp: min_absorb1)
  show ?thesis
    unfolding u renderAtlas_days_append[OF m o1]
    using True m4 by (simp add: px Let_def min_absorb1 v del: upt_Suc)
next
  case False
  then have mn: "min (k + 5) n = n" by simp
  have m: "\<forall>d \<in> set [k..<n]. d mod 5 \<noteq> 0" using k False by auto presburger
  have o1: "\<forall>d \<in> set [k..<n]. \<exists>px. worker_renderPixelData
            (take (nat worker_NUM_POINTS) (drop (d * nat worker_NUM_POINTS) (job_temps j)))
            (job_opts j) FRAME_W FRAME_H = Inr px"
    using ok mn by auto
  show ?thesis
    using renderAtlas_days_append[OF m o1, of "[]"] False by (simp add: mn)
qed


lemma upt_split:
  assumes "i \<le> m" "m \<le> n"
  shows "[i..<n] = [i..<m] @ [m..<n]"
  using upt_add_eq_append[OF assms(1), of "n - m"] assms(2) by simp

text \<open>
  The state of a job that is alone and not cancelled, after its timer and the encoder
  have let it continue \<open>r\<close> times in all.
\<close>

lemma quiet_run:
  fixes allTemps :: "jsnum list" and n :: nat and opts :: opts
  defines "img \<equiv> \<lambda>d. (d mod ATLAS_COLS * FRAME_W, d div ATLAS_COLS * FRAME_H,
                      projr (worker_renderPixelData
                        (take (nat worker_NUM_POINTS) (drop (d * nat worker_NUM_POINTS) allTemps))
                        opts FRAME_W FRAME_H))"
  assumes idle: "jobs w = []"
    and quiet: "\<forall>e \<in> set evs. e = Resume 0 \<or> e = Message Other"
    and r: "r = length (filter (\<lambda>e. e = Resume 0) evs)"
    and ok: "\<forall>d < min (5 * r + 1) n. \<exists>px. worker_renderPixelData
            (take (nat worker_NUM_POINTS) (drop (d * nat worker_NUM_POINTS) allTemps))
            opts FRAME_W FRAME_H = Inr px"
  shows "run (Message (Start allTemps n opts) # evs) w =
     w\<lparr>cancelled := False,
       jobs := [\<lparr>job_temps = allTemps, job_numDays = n, job_opts = opts,
                 job_atlas = \<lparr>cv_width = atlasW, cv_height = atlasH n,
                              cv_images = map img [0..<min (5 * r + 1) n]\<rparr>,
                 job_phase = (if 5 * r < n then Waiting (5 * r + 1)
                              else if r = (n + 4) div 5 then Encoding
                              else if r = (n + 4) div 5 + 1 then Buffering
                              else Ended Completed)\<rparr>],
       outbox := outbox w @ map (\<lambda>d. Progress (d + 1) n) [0..<min (5 * r + 1) n]
                   @ (if (n + 4) div 5 + 2 \<le> r
                      then [Atlas n ATLAS_COLS (atlasRows n) FRAME_W FRAME_H] else [])\<rparr>"
  using quiet r ok
proof (induction evs arbitrary: r rule: rev_induct)
  case Nil
  then have r0: "r = 0" by simp
  have ok0: "0 < n \<longrightarrow> (\<exists>px. worker_renderPixelData
            (take (nat worker_NUM_POINTS) (drop (0 * nat worker_NUM_POINTS) allTemps))
            opts FRAME_W FRAME_H = Inr px)"
    using Nil.prems(3) unfolding r0 by (cases "0 < n") (simp_all add: min_def)
  show ?case
  proof (cases "0 < n")
    case True
    then have m: "min (5 * 0 + 1) n = 1" by simp
    show ?thesis
      unfolding r0 m using True ok0
      by (simp add: run_Cons run_Nil onmessage_def renderAtlas_def renderAtlas_days_first idle img_def)
  next
    case False
    then show ?thesis
      unfolding r0
      by (simp add: run_Cons run_Nil onmessage_def renderAtlas_def idle)
  qed
next
  case (snoc e evs)
  define r' where "r' = length (filter (\<lambda>e. e = Resume 0) evs)"
  have q': "\<forall>e \<in> set evs. e = Resume 0 \<or> e = Message Other" using snoc.prems(1) by simp
  have rr: "r = (if e = Resume 0 then Suc r' else r')" using snoc.prems(2) by (simp add: r'_def)
  have ok': "\<forall>d < min (5 * r' + 1) n. \<exists>px. worker_renderPixelData
            (take (nat worker_NUM_POINTS) (drop (d * nat worker_NUM_POINTS) allTemps))
            opts FRAME_W FRAME_H = Inr px"
    using snoc.prems(3) rr by (auto split: if_splits)
  note ih = snoc.IH[OF q' r'_def ok']
  have e: "e = Resume 0 \<or> e = Message Other" using snoc.prems(1) by simp
  have st: "run (Message (Start allTemps n opts) # evs @ [e]) w
          = dispatch e (run (Message (Start allTemps n opts) # evs) w)"
    using run_snoc[of "Message (Start allTemps n opts) # evs" e w] by simp
  show ?case
  proof (cases "e = Resume 0")
    case False
    with e have eo: "e = Message Other" by simp
    have "r = r'" using rr False by simp
    then show ?thesis unfolding st ih by (simp add: eo onmessage_def)
  next
    case True
    then have rs: "r = Suc r'" using rr by simp
    have st': "run (Message (Start allTemps n opts) # evs @ [Resume 0]) w
          = resume 0 (run (Message (Start allTemps n opts) # evs) w)"
      using st True by simp
    show ?thesis
    proof (cases "5 * r' < n")
      case w: True
      define k where "k = 5 * r' + 1"
      have km: "k mod 5 = 1" unfolding k_def by presburger
      have mk: "min (5 * r' + 1) n = k" using w by (simp add: k_def)
      have mk': "min (5 * r + 1) n = min (k + 5) n" unfolding rs k_def by simp
      have okk: "\<forall>d. k \<le> d \<and> d < min (k + 5) n \<longrightarrow> (\<exists>px. worker_renderPixelData
            (take (nat worker_NUM_POINTS) (drop (d * nat worker_NUM_POINTS) allTemps))
            opts FRAME_W FRAME_H = Inr px)"
        using snoc.prems(3) unfolding mk' by blast
      have kn: "k \<le> min (k + 5) n" using w by (simp add: k_def)
      have ph: "(if k + 5 \<le> n then Waiting (k + 5) else Encoding)
              = (if 5 * r < n then Waiting (5 * r + 1)
                 else if r = (n + 4) div 5 then Encoding
                 else if r = (n + 4) div 5 + 1 then Buffering
                 else Ended Completed)"
      proof (cases "k + 5 \<le> n")
        case True
        then show ?thesis unfolding rs k_def by simp
      next
        case False
        then have "\<not> 5 * r < n" unfolding rs k_def by simp
        moreover have "r = (n + 4) div 5" using False w unfolding rs k_def by presburger
        ultimately show ?thesis using False by simp
      qed
      have nA: "\<not> (n + 4) div 5 + 2 \<le> r'" "\<not> (n + 4) div 5 + 2 \<le> r"
        using w unfolding rs by presburger+
      define j0 where "j0 = \<lparr>job_temps = allTemps, job_numDays = n, job_opts = opts,
                 job_atlas = \<lparr>cv_width = atlasW, cv_height = atlasH n, cv_images = map img [0..<k]\<rparr>,
                 job_phase = Waiting k\<rparr>"
      have j0: "job_temps j0 = allTemps" "job_numDays j0 = n" "job_opts j0 = opts"
        "job_phase j0 = Waiting k" "cv_images (job_atlas j0) = map img [0..<k]"
        by (simp_all add: j0_def)
      have prior: "run (Message (Start allTemps n opts) # evs) w
          = w\<lparr>cancelled := False, jobs := [j0],
               outbox := outbox w @ map (\<lambda>d. Progress (d + 1) n) [0..<k]\<rparr>"
        unfolding ih mk j0_def using w nA(1) by (simp add: k_def)
      have seg: "renderAtlas_days False [k..<n] j0 =
         (j0\<lparr>job_atlas := (job_atlas j0)\<lparr>cv_images := map img [0..<k] @ map img [k..<min (k + 5) n]\<rparr>,
             job_phase := (if k + 5 \<le> n then Waiting (k + 5) else Encoding)\<rparr>,
          map (\<lambda>d. Progress (d + 1) n) [k..<min (k + 5) n])"
        using renderAtlas_days_from[OF km, of n j0] okk unfolding j0 img_def by simp
      have jn: "[0..<k] @ [k..<min (k + 5) n] = [0..<min (k + 5) n]"
        using upt_split[of 0 k "min (k + 5) n"] kn by simp
      have im: "map img [0..<k] @ map img [k..<min (k + 5) n] = map img [0..<min (k + 5) n]"
        unfolding map_append[symmetric] jn ..
      have pm: "map (\<lambda>d. Progress (Suc d) n) [0..<k] @ map (\<lambda>d. Progress (Suc d) n) [k..<min (k + 5) n]
              = map (\<lambda>d. Progress (Suc d) n) [0..<min (k + 5) n]"
        unfolding map_append[symmetric] jn ..
      have "resume 0 (run (Message (Start allTemps n opts) # evs) w)
          = w\<lparr>cancelled := False,
               jobs := [j0\<lparr>job_atlas := (job_atlas j0)\<lparr>cv_images := map img [0..<min (k + 5) n]\<rparr>,
                          job_phase := (if k + 5 \<le> n then Waiting (k + 5) else Encoding)\<rparr>],
               outbox := outbox w @ map (\<lambda>d. Progress (d + 1) n) [0..<min (k + 5) n]\<rparr>"
        unfolding prior resume_def by (simp add: j0 seg im pm del: upt_Suc)
      then show ?thesis
        unfolding True st' ph mk' using nA(2) by (simp add: j0_def del: upt_Suc)
    next
      case nw: False
      define W where "W = (n + 4) div 5"
      have Wr: "W \<le> r'" using nw unfolding W_def by presburger
      have nr: "\<not> 5 * r < n" using nw rs by simp
      have mn: "min (5 * r' + 1) n = n" "min (5 * r + 1) n = n" using nw rs by simp_all
      consider "r' = W" | "r' = W + 1" | "W + 2 \<le> r'" using Wr by linarith
      then show ?thesis
      proof cases
        case 1
        then show ?thesis
          unfolding True st' ih mn using nw nr rs
          by (simp add: resume_def W_def[symmetric])
      next
        case 2
        then show ?thesis
          unfolding True st' ih mn using nw nr rs
          by (simp add: resume_def W_def[symmetric])
      next
        case 3
        then show ?thesis
          unfolding True st' ih mn using nw nr rs
          by (simp add: resume_def W_def[symmetric])
      qed
    qed
  qed
qed








lemma progress_shift:
  "map (\<lambda>d. Progress (d + 1) n) [0..<m] = map (\<lambda>i. Progress i n) [1..<Suc m]"
proof -
  have "map (\<lambda>d. Progress (d + 1) n) [0..<m] = map (\<lambda>i. Progress i n) (map Suc [0..<m])"
    by simp
  then show ?thesis by (simp only: map_Suc_upt) simp
qed

lemma frame_length:
  assumes "renderPixelData temps opts (Some w) (Some h) = Inr frame" "0 < w" "0 < h"
  shows "length frame = w * h * 4"
proof -
  define stops where "stops = (case customStops opts of Some cs \<Rightarrow> Some cs | None \<Rightarrow> COLORWAY_MAP (colorway opts))"
  have eq: "renderPixelData temps opts (Some w) (Some h) =
      (case forM [0..<h] (\<lambda>y. forM [0..<w] (renderPixel temps stops w h y))
                (replicate (w * h * 4) 0, replicate (w * h) 0) of
           Inl e \<Rightarrow> Inl e
         | Inr (data, oceanMask) \<Rightarrow>
             Inr (case blurRadius opts of
                    Num b \<Rightarrow> if 0 < b then restamp (boxBlur data w h (scaledRadius b w) 3) oceanMask
                              else data
                  | NaN \<Rightarrow> data))"
    unfolding renderPixelData_def stops_def by (simp add: Let_def)
  obtain d m where
    run: "forM [0..<h] (\<lambda>y. forM [0..<w] (renderPixel temps stops w h y))
            (replicate (w * h * 4) 0, replicate (w * h) 0) = Inr (d, m)"
    and fr: "frame = (case blurRadius opts of
                    Num b \<Rightarrow> if 0 < b then restamp (boxBlur d w h (scaledRadius b w) 3) m else d
                  | NaN \<Rightarrow> d)"
  proof (cases "forM [0..<h] (\<lambda>y. forM [0..<w] (renderPixel temps stops w h y))
                (replicate (w * h * 4) 0, replicate (w * h) 0)")
    case (Inl e)
    with assms(1) eq show ?thesis by simp
  next
    case (Inr dm)
    obtain d m where "dm = (d, m)" by (cases dm)
    with Inr assms(1) eq that show ?thesis by simp
  qed
  have len: "length d = w * h * 4" "length m = w * h"
    using raster_pixel[OF run assms(2,3)] by simp_all
  have "length (restamp (boxBlur d w h r 3) m) = w * h * 4" for r
  proof -
    have "length (boxBlur d w h r 3) = length m * 4"
      using boxBlur_keeps_alpha[of d w h r 3] len by simp
    from restamp_spec[OF this] show ?thesis
      using boxBlur_keeps_alpha[of d w h r 3] len by simp
  qed
  then show ?thesis unfolding fr using len by (cases "blurRadius opts") simp_all
qed

lemma encoding_run:
  assumes "jobs w = [j]" "job_phase j = Encoding"
    and "\<forall>e \<in> set tail. \<forall>t k o'. e \<noteq> Message (Start t k o')"
    and "c = length (filter (\<lambda>e. e = Resume 0) tail)"
  shows "jobs (run tail w) = [j\<lparr>job_phase := (if c = 0 then Encoding else if c = 1 then Buffering
                                               else Ended Completed)\<rparr>]
       \<and> outbox (run tail w) = outbox w @ (if 2 \<le> c
            then [Atlas (job_numDays j) ATLAS_COLS (atlasRows (job_numDays j)) FRAME_W FRAME_H] else [])"
  using assms(3,4)
proof (induction tail arbitrary: c rule: rev_induct)
  case Nil
  then show ?case using assms(1,2) by (simp add: run_Nil)
next
  case (snoc e tail)
  define c' where "c' = length (filter (\<lambda>e. e = Resume 0) tail)"
  define w' where "w' = run tail w"
  have cc: "c = (if e = Resume 0 then Suc c' else c')" using snoc.prems(2) by (simp add: c'_def)
  from snoc.prems(1) have "\<forall>e \<in> set tail. \<forall>t k o'. e \<noteq> Message (Start t k o')" by simp
  from snoc.IH[OF this c'_def]
  have ih: "jobs w' = [j\<lparr>job_phase := (if c' = 0 then Encoding else if c' = 1 then Buffering
                                               else Ended Completed)\<rparr>]"
    "outbox w' = outbox w @ (if 2 \<le> c'
            then [Atlas (job_numDays j) ATLAS_COLS (atlasRows (job_numDays j)) FRAME_W FRAME_H] else [])"
    unfolding w'_def by simp_all
  have st: "run (tail @ [e]) w = dispatch e w'" unfolding w'_def by (rule run_snoc)
  show ?case
  proof (cases e)
    case (Message msg)
    with snoc.prems(1) have "msg = Cancel \<or> msg = Other" by (cases msg) auto
    then show ?thesis unfolding st using Message ih cc by (auto simp: onmessage_def)
  next
    case (Resume i)
    show ?thesis
    proof (cases "i = 0")
      case False
      then show ?thesis unfolding st using Resume ih cc by (simp add: resume_def)
    next
      case True
      consider "c' = 0" | "c' = 1" | "2 \<le> c'" by linarith
      then show ?thesis
      proof cases
        case 1
        then show ?thesis unfolding st using Resume True ih cc by (simp add: resume_def)
      next
        case 2
        then show ?thesis unfolding st using Resume True ih cc by (simp add: resume_def)
      next
        case 3
        then show ?thesis unfolding st using Resume True ih cc by (simp add: resume_def)
      qed
    qed
  qed
qed





lemma thermal_renders:
  "worker_renderPixelData temps \<lparr>customStops = None, colorway = ''thermal'', blurRadius = NaN\<rparr> w h
     = Inr (projr (worker_renderPixelData temps
               \<lparr>customStops = None, colorway = ''thermal'', blurRadius = NaN\<rparr> w h))"
  by (rule worker_renderPixelData_total) simp

lemma atlasRows_small: "atlasRows (Suc 0) = Suc 0" "atlasRows 2 = Suc 0"
proof -
  have "\<lceil>(1::rat) / 16\<rceil> = 1" by (rule ceiling_unique) simp_all
  then show "atlasRows (Suc 0) = Suc 0" unfolding atlasRows_def atlas_consts by simp
  have "\<lceil>(2::rat) / 16\<rceil> = 1" by (rule ceiling_unique) simp_all
  then show "atlasRows 2 = Suc 0" unfolding atlasRows_def atlas_consts by simp
qed




lemma worker_frame_length:
  assumes "worker_renderPixelData temps opts w h = Inr frame" "0 < w" "0 < h"
  shows "length frame = w * h * 4"
  using frame_length[of temps opts w h frame] assms unfolding worker_renderPixelData_eq by simp

text \<open>
  Claim C4.  For \<open>numDays \<ge> 1\<close>: the atlas has 16 columns of \<open>512 \<times> 256\<close> tiles and width
  \<open>16 * 512\<close>; \<open>rows\<close> is \<open>\<lceil>numDays / 16\<rceil>\<close> (the least \<open>r\<close> with \<open>numDays \<le> 16 r\<close>); the height
  is the least power of two that is at least \<open>rows * 256\<close>.  A job with a usable stop
  table, alone on its worker and not cancelled, whose timer has fired often enough for
  all days to be done, has a canvas of that width and height that holds \<open>numDays\<close>
  images: the image of day \<open>d\<close> is the frame that \<open>renderPixelData\<close> returns for the part
  of the grid of day \<open>d\<close> at \<open>512 \<times> 256\<close>, with its \<open>512 * 256 * 4\<close> bytes, and it is put at
  \<open>(d mod 16) * 512, (d div 16) * 256\<close>, that is at tile \<open>(col, row) = (d mod 16, d div 16)\<close>.
  Once the encoding is over as well, the job has ended with the message
  \<open>(numDays, 16, rows, 512, 256)\<close>.  Seventeen days give two rows and height 512, and day
  16 lands at column 0, row 1.
\<close>

theorem atlas_geometry:
  assumes "1 \<le> numDays"
  shows "ATLAS_COLS = 16 \<and> FRAME_W = 512 \<and> FRAME_H = 256 \<and> atlasW = 16 * 512
     \<and> 16 * (atlasRows numDays - 1) < numDays \<and> numDays \<le> 16 * atlasRows numDays
     \<and> rawH numDays = atlasRows numDays * 256
     \<and> rawH numDays \<le> atlasH numDays \<and> (\<exists>e. atlasH numDays = 2 ^ e)
     \<and> (\<forall>e. rawH numDays \<le> 2 ^ e \<longrightarrow> atlasH numDays \<le> 2 ^ e)
     \<and> ((customStops opts = Some (c # cs)
           \<or> customStops opts = None \<and> colorway opts \<in> {''thermal'', ''classic'', ''earth'', ''vivid''})
          \<and> jobs w = [] \<and> (\<forall>e \<in> set evs. e = Resume 0 \<or> e = Message Other)
          \<and> numDays \<le> 5 * length (filter (\<lambda>e. e = Resume 0) evs) \<longrightarrow>
          (\<exists>j. jobs (run (Message (Start allTemps numDays opts) # evs) w) = [j]
             \<and> cv_width (job_atlas j) = 16 * 512 \<and> cv_height (job_atlas j) = atlasH numDays
             \<and> length (cv_images (job_atlas j)) = numDays
             \<and> (\<forall>d<numDays. \<exists>pixels.
                   worker_renderPixelData
                     (take (nat worker_NUM_POINTS) (drop (d * nat worker_NUM_POINTS) allTemps))
                     opts 512 256 = Inr pixels
                 \<and> length pixels = 512 * 256 * 4
                 \<and> cv_images (job_atlas j) ! d = ((d mod 16) * 512, (d div 16) * 256, pixels))
             \<and> ((numDays + 4) div 5 + 2 \<le> length (filter (\<lambda>e. e = Resume 0) evs) \<longrightarrow>
                  job_phase j = Ended Completed
                  \<and> last (outbox (run (Message (Start allTemps numDays opts) # evs) w))
                      = Atlas numDays 16 (atlasRows numDays) 512 256)))
     \<and> atlasRows 17 = 2 \<and> atlasH 17 = 512 \<and> 16 mod ATLAS_COLS = 0 \<and> 16 div ATLAS_COLS = 1"
proof -
  have run: "\<exists>j. jobs (run (Message (Start allTemps numDays opts) # evs) w) = [j]
             \<and> cv_width (job_atlas j) = 16 * 512 \<and> cv_height (job_atlas j) = atlasH numDays
             \<and> length (cv_images (job_atlas j)) = numDays
             \<and> (\<forall>d<numDays. \<exists>pixels.
                   worker_renderPixelData
                     (take (nat worker_NUM_POINTS) (drop (d * nat worker_NUM_POINTS) allTemps))
                     opts 512 256 = Inr pixels
                 \<and> length pixels = 512 * 256 * 4
                 \<and> cv_images (job_atlas j) ! d = ((d mod 16) * 512, (d div 16) * 256, pixels))
             \<and> ((numDays + 4) div 5 + 2 \<le> length (filter (\<lambda>e. e = Resume 0) evs) \<longrightarrow>
                  job_phase j = Ended Completed
                  \<and> last (outbox (run (Message (Start allTemps numDays opts) # evs) w))
                      = Atlas numDays 16 (atlasRows numDays) 512 256)"
    if valid: "customStops opts = Some (c # cs)
           \<or> customStops opts = None \<and> colorway opts \<in> {''thermal'', ''classic'', ''earth'', ''vivid''}"
      and idle: "jobs w = []"
      and quiet: "\<forall>e \<in> set evs. e = Resume 0 \<or> e = Message Other"
      and enough: "numDays \<le> 5 * length (filter (\<lambda>e. e = Resume 0) evs)"
  proof -
    define r where "r = length (filter (\<lambda>e. e = Resume 0) evs)"
    define img where "img = (\<lambda>d. (d mod ATLAS_COLS * FRAME_W, d div ATLAS_COLS * FRAME_H,
                      projr (worker_renderPixelData
                        (take (nat worker_NUM_POINTS) (drop (d * nat worker_NUM_POINTS) allTemps))
                        opts FRAME_W FRAME_H)))"
    have tot: "worker_renderPixelData
            (take (nat worker_NUM_POINTS) (drop (d * nat worker_NUM_POINTS) allTemps))
            opts FRAME_W FRAME_H = Inr (snd (snd (img d)))" for d
      unfolding img_def using worker_renderPixelData_total[OF valid] by simp
    have ok: "\<forall>d < min (5 * r + 1) numDays. \<exists>px. worker_renderPixelData
            (take (nat worker_NUM_POINTS) (drop (d * nat worker_NUM_POINTS) allTemps))
            opts FRAME_W FRAME_H = Inr px"
      using tot by blast
    have mn: "min (5 * r + 1) numDays = numDays" and nw: "\<not> 5 * r < numDays"
      using enough unfolding r_def by simp_all
    define j where "j = \<lparr>job_temps = allTemps, job_numDays = numDays, job_opts = opts,
                 job_atlas = \<lparr>cv_width = atlasW, cv_height = atlasH numDays,
                              cv_images = map img [0..<numDays]\<rparr>,
                 job_phase = (if r = (numDays + 4) div 5 then Encoding
                              else if r = (numDays + 4) div 5 + 1 then Buffering
                              else Ended Completed)\<rparr>"
    have st: "run (Message (Start allTemps numDays opts) # evs) w =
       w\<lparr>cancelled := False, jobs := [j],
         outbox := outbox w @ map (\<lambda>d. Progress (d + 1) numDays) [0..<numDays]
                   @ (if (numDays + 4) div 5 + 2 \<le> r
                      then [Atlas numDays ATLAS_COLS (atlasRows numDays) FRAME_W FRAME_H] else [])\<rparr>"
      unfolding quiet_run[OF idle quiet r_def ok] mn j_def img_def using nw by simp
    have im: "\<exists>pixels. worker_renderPixelData
                     (take (nat worker_NUM_POINTS) (drop (d * nat worker_NUM_POINTS) allTemps))
                     opts 512 256 = Inr pixels
                 \<and> length pixels = 512 * 256 * 4
                 \<and> cv_images (job_atlas j) ! d = ((d mod 16) * 512, (d div 16) * 256, pixels)"
      if d: "d < numDays" for d
    proof -
      have "length (snd (snd (img d))) = FRAME_W * FRAME_H * 4"
        by (rule worker_frame_length[OF tot]) (simp_all add: atlas_consts)
      moreover have "cv_images (job_atlas j) ! d = img d" using d by (simp add: j_def)
      moreover have "img d = ((d mod 16) * 512, (d div 16) * 256, snd (snd (img d)))"
        by (simp add: img_def atlas_consts)
      ultimately show ?thesis using tot[of d] by (intro exI[of _ "snd (snd (img d))"]) (simp add: atlas_consts)
    qed
    have fin: "job_phase j = Ended Completed
                  \<and> last (outbox (run (Message (Start allTemps numDays opts) # evs) w))
                      = Atlas numDays 16 (atlasRows numDays) 512 256"
      if "(numDays + 4) div 5 + 2 \<le> r"
      unfolding st using that by (simp add: j_def atlas_consts)
    show ?thesis
      using im fin unfolding r_def[symmetric]
      by (intro exI[of _ j]) (simp add: st j_def atlas_consts)
  qed
  show ?thesis
    using atlas_consts atlasRows_ceiling[OF assms] atlasH_power[OF assms] atlas_17 run
    by (simp add: rawH_def)
qed


text \<open>
  The theorem for seventeen days of an empty grid, the timer having fired four times:
  two rows, height 512, seventeen images, the last one a frame of \<open>512 * 256 * 4\<close> bytes at
  offset \<open>(0, 256)\<close>.
\<close>

theorem atlas_geometry_witness:
  "rawH 17 \<le> atlasH 17 \<and> atlasRows 17 = 2 \<and> atlasH 17 = 512
   \<and> length (cv_images (job_atlas (jobs (run
        [Message (Start [] 17 \<lparr>customStops = None, colorway = ''thermal'', blurRadius = NaN\<rparr>),
         Resume 0, Resume 0, Resume 0, Resume 0]
        \<lparr>cancelled = False, outbox = [], jobs = []\<rparr>) ! 0))) = 17
   \<and> fst (cv_images (job_atlas (jobs (run
        [Message (Start [] 17 \<lparr>customStops = None, colorway = ''thermal'', blurRadius = NaN\<rparr>),
         Resume 0, Resume 0, Resume 0, Resume 0]
        \<lparr>cancelled = False, outbox = [], jobs = []\<rparr>) ! 0)) ! 16) = 0
   \<and> fst (snd (cv_images (job_atlas (jobs (run
        [Message (Start [] 17 \<lparr>customStops = None, colorway = ''thermal'', blurRadius = NaN\<rparr>),
         Resume 0, Resume 0, Resume 0, Resume 0]
        \<lparr>cancelled = False, outbox = [], jobs = []\<rparr>) ! 0)) ! 16)) = 256
   \<and> length (snd (snd (cv_images (job_atlas (jobs (run
        [Message (Start [] 17 \<lparr>customStops = None, colorway = ''thermal'', blurRadius = NaN\<rparr>),
         Resume 0, Resume 0, Resume 0, Resume 0]
        \<lparr>cancelled = False, outbox = [], jobs = []\<rparr>) ! 0)) ! 16))) = 512 * 256 * 4"
proof -
  have "(1::nat) \<le> 17" by simp
  note g = atlas_geometry[OF this, of "\<lparr>customStops = None, colorway = ''thermal'', blurRadius = NaN\<rparr>"
      undefined undefined "\<lparr>cancelled = False, outbox = [], jobs = []\<rparr>"
      "[Resume 0, Resume 0, Resume 0, Resume 0]" "[]"]
  note placed = g[THEN conjunct2, THEN conjunct2, THEN conjunct2, THEN conjunct2, THEN conjunct2,
      THEN conjunct2, THEN conjunct2, THEN conjunct2, THEN conjunct2, THEN conjunct2, THEN conjunct1]
  have "\<exists>j. jobs (run
        [Message (Start [] 17 \<lparr>customStops = None, colorway = ''thermal'', blurRadius = NaN\<rparr>),
         Resume 0, Resume 0, Resume 0, Resume 0]
        \<lparr>cancelled = False, outbox = [], jobs = []\<rparr>) = [j]
     \<and> length (cv_images (job_atlas j)) = 17
     \<and> (\<forall>d<17. \<exists>pixels. length pixels = 512 * 256 * 4
         \<and> cv_images (job_atlas j) ! d = ((d mod 16) * 512, (d div 16) * 256, pixels))"
    using placed by (elim impE) (simp, blast)
  then obtain j where j: "jobs (run
        [Message (Start [] 17 \<lparr>customStops = None, colorway = ''thermal'', blurRadius = NaN\<rparr>),
         Resume 0, Resume 0, Resume 0, Resume 0]
        \<lparr>cancelled = False, outbox = [], jobs = []\<rparr>) = [j]"
    "length (cv_images (job_atlas j)) = 17"
    "\<forall>d<17. \<exists>pixels. length pixels = 512 * 256 * 4
         \<and> cv_images (job_atlas j) ! d = ((d mod 16) * 512, (d div 16) * 256, pixels)"
    by blast
  have "(16::nat) < 17" by simp
  with j(3) obtain pixels where "length pixels = 512 * 256 * 4"
    "cv_images (job_atlas j) ! 16 = ((16 mod 16) * 512, (16 div 16) * 256, pixels)"
    by blast
  then show ?thesis using atlas_17 j(1,2) by (simp add: rawH_def atlas_consts)
qed

text \<open>
  Claim C5, as amended.  The job does not validate the length of the grid.  For a grid of
  any length, \<open>numDays * NUM_POINTS\<close> or not, a job with a usable stop table, alone on its
  worker, that is not cancelled while it renders (\<open>evs\<close>, in which its timer fires until
  all days are done) and is then encoded (\<open>tail\<close>, which may hold anything but a \<open>start\<close>)
  completes: each day is rendered without an error from
  \<open>subarray(day * NUM_POINTS, (day + 1) * NUM_POINTS)\<close>, which is short or empty when the
  grid is short, and the job posts \<open>numDays\<close> progress messages and the \<open>atlas\<close> message.
  No error is reported.
\<close>

theorem no_length_validation:
  assumes valid: "customStops opts = Some (c # cs)
         \<or> customStops opts = None \<and> colorway opts \<in> {''thermal'', ''classic'', ''earth'', ''vivid''}"
    and idle: "jobs w = []"
    and quiet: "\<forall>e \<in> set evs. e = Resume 0 \<or> e = Message Other"
    and days: "length (filter (\<lambda>e. e = Resume 0) evs) = (numDays + 4) div 5"
    and tail: "\<forall>e \<in> set tail. \<forall>t n o'. e \<noteq> Message (Start t n o')"
    and enc: "2 \<le> length (filter (\<lambda>e. e = Resume 0) tail)"
  shows "map job_phase (jobs (run (Message (Start allTemps numDays opts) # evs @ tail) w))
           = [Ended Completed]
       \<and> outbox (run (Message (Start allTemps numDays opts) # evs @ tail) w)
           = outbox w @ map (\<lambda>i. Progress i numDays) [1..<Suc numDays]
               @ [Atlas numDays ATLAS_COLS (atlasRows numDays) FRAME_W FRAME_H]
       \<and> map (\<lambda>(x, y, pixels). pixels)
            (cv_images (job_atlas (jobs (run (Message (Start allTemps numDays opts) # evs @ tail) w) ! 0)))
           = map (\<lambda>d. projr (worker_renderPixelData
                    (take (nat worker_NUM_POINTS) (drop (d * nat worker_NUM_POINTS) allTemps))
                    opts FRAME_W FRAME_H)) [0..<numDays]
       \<and> (\<forall>d<numDays. \<exists>pixels. worker_renderPixelData
                    (take (nat worker_NUM_POINTS) (drop (d * nat worker_NUM_POINTS) allTemps))
                    opts FRAME_W FRAME_H = Inr pixels)"
proof -
  define r where "r = length (filter (\<lambda>e. e = Resume 0) evs)"
  have rW: "r = (numDays + 4) div 5" using days by (simp add: r_def)
  have tot: "\<exists>pixels. worker_renderPixelData
                    (take (nat worker_NUM_POINTS) (drop (d * nat worker_NUM_POINTS) allTemps))
                    opts FRAME_W FRAME_H = Inr pixels" for d
    using worker_renderPixelData_total[OF valid] by blast
  then have ok: "\<forall>d < min (5 * r + 1) numDays. \<exists>px. worker_renderPixelData
            (take (nat worker_NUM_POINTS) (drop (d * nat worker_NUM_POINTS) allTemps))
            opts FRAME_W FRAME_H = Inr px" by blast
  have nw: "\<not> 5 * r < numDays" unfolding rW by presburger
  then have mn: "min (5 * r + 1) numDays = numDays" by simp
  define j where "j = \<lparr>job_temps = allTemps, job_numDays = numDays, job_opts = opts,
       job_atlas = \<lparr>cv_width = atlasW, cv_height = atlasH numDays,
          cv_images = map (\<lambda>d. (d mod ATLAS_COLS * FRAME_W, d div ATLAS_COLS * FRAME_H,
                      projr (worker_renderPixelData
                        (take (nat worker_NUM_POINTS) (drop (d * nat worker_NUM_POINTS) allTemps))
                        opts FRAME_W FRAME_H))) [0..<numDays]\<rparr>,
       job_phase = Encoding\<rparr>"
  define s1 where "s1 = run (Message (Start allTemps numDays opts) # evs) w"
  have s1: "s1 = w\<lparr>cancelled := False, jobs := [j],
         outbox := outbox w @ map (\<lambda>d. Progress (d + 1) numDays) [0..<numDays]\<rparr>"
    unfolding s1_def quiet_run[OF idle quiet r_def ok] mn j_def using nw rW by simp
  have split: "run (Message (Start allTemps numDays opts) # evs @ tail) w = run tail s1"
    using run_append[of "Message (Start allTemps numDays opts) # evs" tail w]
    by (simp add: s1_def)
  have j1: "jobs s1 = [j]" and j2: "job_phase j = Encoding" by (simp_all add: s1 j_def)
  define cnt where "cnt = length (filter (\<lambda>e. e = Resume 0) tail)"
  have c2: "2 \<le> cnt" using enc by (simp add: cnt_def)
  from encoding_run[OF j1 j2 tail cnt_def]
  have fin: "jobs (run tail s1) = [j\<lparr>job_phase := Ended Completed\<rparr>]"
    "outbox (run tail s1) = outbox s1 @ [Atlas numDays ATLAS_COLS (atlasRows numDays) FRAME_W FRAME_H]"
    using c2 by (simp_all add: j_def)
  have ps: "map (\<lambda>d. Progress (Suc d) numDays) [0..<numDays]
          = map (\<lambda>i. Progress i numDays) [Suc 0..<Suc numDays]"
    using progress_shift[of numDays numDays] by simp
  show ?thesis
    unfolding split fin using tot
    by (simp add: s1 ps j_def comp_def del: upt_Suc)
qed

text \<open>
  The theorem for a grid of three cells and two days: the timer fires once, the two
  steps of the encoding follow.
\<close>

theorem no_length_validation_witness:
  "map job_phase (jobs (run
      [Message (Start [Num 20, NaN, Num 5] 2 \<lparr>customStops = None, colorway = ''thermal'', blurRadius = NaN\<rparr>),
       Resume 0, Resume 0, Resume 0]
      \<lparr>cancelled = False, outbox = [], jobs = []\<rparr>)) = [Ended Completed]
   \<and> outbox (run
      [Message (Start [Num 20, NaN, Num 5] 2 \<lparr>customStops = None, colorway = ''thermal'', blurRadius = NaN\<rparr>),
       Resume 0, Resume 0, Resume 0]
      \<lparr>cancelled = False, outbox = [], jobs = []\<rparr>)
     = [Progress 1 2, Progress 2 2, Atlas 2 16 1 512 256]"
proof -
  have u: "[Suc 0..<3] = [Suc 0, 2]" by (simp add: upt_rec)
  from no_length_validation[of "\<lparr>customStops = None, colorway = ''thermal'', blurRadius = NaN\<rparr>"
      undefined undefined "\<lparr>cancelled = False, outbox = [], jobs = []\<rparr>" "[Resume 0]" 2
      "[Resume 0, Resume 0]" "[Num 20, NaN, Num 5]"]
  show ?thesis by (simp add: atlasRows_small u atlas_consts)
qed

text \<open>
  Claim C5 as stated fails: a \<open>start\<close> request for one day with an empty grid (length 0,
  not \<open>NUM_POINTS\<close>) is not rejected; the job completes and posts its progress message
  and the \<open>atlas\<close> message.
\<close>

theorem invalid_length_accepted_counterexample:
  "int (length ([] :: jsnum list)) \<noteq> int 1 * worker_NUM_POINTS
   \<and> map job_phase (jobs (run
      [Message (Start [] 1 \<lparr>customStops = None, colorway = ''thermal'', blurRadius = NaN\<rparr>),
       Resume 0, Resume 0, Resume 0]
      \<lparr>cancelled = False, outbox = [], jobs = []\<rparr>)) = [Ended Completed]
   \<and> outbox (run
      [Message (Start [] 1 \<lparr>customStops = None, colorway = ''thermal'', blurRadius = NaN\<rparr>),
       Resume 0, Resume 0, Resume 0]
      \<lparr>cancelled = False, outbox = [], jobs = []\<rparr>)
     = [Progress 1 1, Atlas 1 16 1 512 256]"
proof -
  define Op where "Op = \<lparr>customStops = None, colorway = ''thermal'', blurRadius = NaN\<rparr>"
  define P where "P = projr (worker_renderPixelData [] Op 512 256)"
  have px: "worker_renderPixelData [] Op 512 256 = Inr P"
    unfolding Op_def P_def by (rule thermal_renders)
  have u: "[0..<Suc 0] = [0]" by simp
  show ?thesis
    unfolding Op_def[symmetric]
    by (simp add: run_Cons run_Nil onmessage_def renderAtlas_def resume_def u px Let_def
        atlasRows_small atlas_consts worker_consts_eq grid_consts)
qed


end
